theory Spec2Isabelle
  imports Main
begin

section \<open>Errors, outcomes and settled promises\<close>

text \<open>
  A JavaScript \<^verbatim>\<open>Error\<close> is identified by its message. What \<^verbatim>\<open>target.apply(this, args)\<close>
  does when a wrapper reaches it is an \<open>outcome\<close>: it returns a plain value, throws, or
  returns a promise that later fulfils or rejects. A promise that has settled is a
  \<open>settled\<close> value.
\<close>

datatype error = Error string

datatype 'v outcome = Returns 'v | Throws error | Resolves 'v | Rejects error

datatype 'v settled = Fulfilled 'v | Rejected error

fun failing :: "'v outcome \<Rightarrow> bool" where
  "failing (Returns v) = False"
| "failing (Throws e) = True"
| "failing (Resolves v) = False"
| "failing (Rejects e) = True"

fun settle :: "'v outcome \<Rightarrow> 'v settled" where
  "settle (Returns v) = Fulfilled v"
| "settle (Throws e) = Rejected e"
| "settle (Resolves v) = Fulfilled v"
| "settle (Rejects e) = Rejected e"

section \<open>CircuitBreaker\<close>

text \<open>
  \<^verbatim>\<open>circuitState\<close> is the object created once per \<^verbatim>\<open>CircuitBreaker(options)\<close>. The world of a
  breaker adds what the claims observe from outside: the arguments passed to
  \<^verbatim>\<open>options.onStateChange\<close> (oldest first) and the number of times \<^verbatim>\<open>target.apply\<close> ran.
\<close>

datatype breaker_state = Closed | Open | HalfOpen

record cb_options =
  failureThreshold :: int
  resetTimeout :: int

record cb_world =
  failures :: nat
  state :: breaker_state
  lastFailureTime :: int
  notified :: "breaker_state list"
  invocations :: nat

definition circuitState :: cb_world where
  "circuitState = \<lparr>failures = 0, state = Closed, lastFailureTime = 0, notified = [], invocations = 0\<rparr>"

definition updateState :: "breaker_state \<Rightarrow> cb_world \<Rightarrow> cb_world" where
  "updateState newState w =
     (if state w \<noteq> newState then w\<lparr>state := newState, notified := notified w @ [newState]\<rparr> else w)"

text \<open>\<open>now\<close> is the value of \<^verbatim>\<open>Date.now()\<close> read inside \<^verbatim>\<open>handleFailure\<close>.\<close>

definition handleFailure :: "cb_options \<Rightarrow> int \<Rightarrow> cb_world \<Rightarrow> cb_world" where
  "handleFailure opts now w =
     (let w1 = w\<lparr>failures := failures w + 1, lastFailureTime := now\<rparr>
      in if int (failures w1) \<ge> failureThreshold opts then updateState Open w1 else w1)"

text \<open>
  The executor of the returned promise up to \<^verbatim>\<open>target.apply\<close>: \<open>None\<close> when the call is let
  through (possibly after the lazy move to half-open), \<open>Some e\<close> when it is rejected with
  \<open>e\<close> before the target is reached.
\<close>

definition cb_enter :: "cb_options \<Rightarrow> int \<Rightarrow> cb_world \<Rightarrow> error option \<times> cb_world" where
  "cb_enter opts now w =
     (if state w = Open then
        (if now - lastFailureTime w \<ge> resetTimeout opts then (None, updateState HalfOpen w)
         else (Some (Error ''Circuit breaker is open''), w))
      else (None, w))"

text \<open>The success branches (the \<^verbatim>\<open>then\<close> callback and the synchronous one are the same code).\<close>

definition cb_success :: "cb_world \<Rightarrow> cb_world" where
  "cb_success w = (if state w = HalfOpen then (updateState Closed w)\<lparr>failures := 0\<rparr> else w)"

text \<open>
  What happens once the target's outcome is known; \<open>later\<close> is the clock when a failure is
  handled (at the \<^verbatim>\<open>catch\<close> for a throw, at the rejection for a promise).
\<close>

definition cb_settle :: "cb_options \<Rightarrow> int \<Rightarrow> 'v outcome \<Rightarrow> cb_world \<Rightarrow> 'v settled \<times> cb_world" where
  "cb_settle opts later out w =
     (case out of
        Returns v \<Rightarrow> (Fulfilled v, cb_success w)
      | Resolves v \<Rightarrow> (Fulfilled v, cb_success w)
      | Throws e \<Rightarrow> (Rejected e, handleFailure opts later w)
      | Rejects e \<Rightarrow> (Rejected e, handleFailure opts later w))"

text \<open>
  One call of the replacement method that is awaited before the next call starts: \<open>now\<close> is
  \<^verbatim>\<open>Date.now()\<close> at the open check, \<open>out\<close> is what the target does if it is reached.
\<close>

definition CircuitBreaker_call ::
  "cb_options \<Rightarrow> int \<Rightarrow> int \<Rightarrow> 'v outcome \<Rightarrow> cb_world \<Rightarrow> 'v settled \<times> cb_world" where
  "CircuitBreaker_call opts now later out w =
     (case cb_enter opts now w of
        (Some e, w1) \<Rightarrow> (Rejected e, w1)
      | (None, w1) \<Rightarrow> cb_settle opts later out (w1\<lparr>invocations := invocations w1 + 1\<rparr>))"

text \<open>A sequence of awaited calls, each given as (now, later, outcome of the target).\<close>

fun cb_run :: "cb_options \<Rightarrow> (int \<times> int \<times> 'v outcome) list \<Rightarrow> cb_world \<Rightarrow> cb_world" where
  "cb_run opts [] w = w"
| "cb_run opts ((now, later, out) # cs) w = cb_run opts cs (snd (CircuitBreaker_call opts now later out w))"

section \<open>Retry\<close>

text \<open>
  The options of \<^verbatim>\<open>Retry\<close>: \<^verbatim>\<open>strategy === 'exponential'\<close> selects the exponential delay and
  any other value the fixed one; \<open>backoff\<close> is optional with default 1000; \<open>onRetry\<close> says
  whether a callback was supplied.
\<close>

datatype strategy = Fixed | Exponential

record retry_options =
  maxRetries :: int
  strategy :: strategy
  backoff :: "int option"
  onRetry :: bool

text \<open>
  One call of the replacement method: the local counter \<open>attempts\<close>, and what the call does
  to the outside: how often \<^verbatim>\<open>target.apply\<close> ran, the arguments of the \<^verbatim>\<open>onRetry\<close> calls and
  the delays given to \<^verbatim>\<open>setTimeout\<close> (both oldest first).
\<close>

record retry_run =
  attempts :: int
  applied :: nat
  retried :: "(error \<times> int) list"
  waits :: "int list"

definition retry_delay :: "retry_options \<Rightarrow> int \<Rightarrow> int" where
  "retry_delay opts n =
     (let b = (case backoff opts of None \<Rightarrow> 1000 | Some b \<Rightarrow> b)
      in if strategy opts = Exponential then b * 2 ^ nat (n - 1) else b)"

text \<open>
  \<^verbatim>\<open>execute\<close>: \<open>target k\<close> is what the target does when it is applied with \<open>attempts = k\<close>.
  A throw and a rejected promise reach the same \<^verbatim>\<open>catch\<close> (the promise is awaited inside
  the \<^verbatim>\<open>try\<close>), which is what \<open>settle\<close> expresses.
\<close>

function execute :: "retry_options \<Rightarrow> (int \<Rightarrow> 'v outcome) \<Rightarrow> retry_run \<Rightarrow> 'v settled \<times> retry_run" where
  "execute opts target r =
     (let r1 = r\<lparr>attempts := attempts r + 1, applied := applied r + 1\<rparr>
      in case settle (target (attempts r1)) of
           Fulfilled v \<Rightarrow> (Fulfilled v, r1)
         | Rejected e \<Rightarrow>
             if attempts r1 \<ge> maxRetries opts + 1 then (Rejected e, r1)
             else execute opts target
                    (r1\<lparr>retried := (if onRetry opts then retried r1 @ [(e, attempts r1)] else retried r1),
                        waits := waits r1 @ [retry_delay opts (attempts r1)]\<rparr>))"
  by pat_completeness auto
termination
  by (relation "measure (\<lambda>(opts, target, r). nat (maxRetries opts + 1 - attempts r))") auto

declare execute.simps [simp del]

definition Retry_call :: "retry_options \<Rightarrow> (int \<Rightarrow> 'v outcome) \<Rightarrow> 'v settled \<times> retry_run" where
  "Retry_call opts target = execute opts target \<lparr>attempts = 0, applied = 0, retried = [], waits = []\<rparr>"

section \<open>Numbers inside messages\<close>

text \<open>
  A template literal prints a number that is an integer below \<open>10^21\<close> in absolute value in
  decimal, with a leading minus sign when negative; \<open>string_of_int\<close> is that rendering. From
  \<open>10^21\<close> on JavaScript switches to exponent notation (\<open>1e+21\<close>), which is not modelled: what is
  proved about a rendered number is proved for integers below that bound, which covers clock
  values, delays and bounds in milliseconds. \<open>decimal_value\<close> reads a string of decimal digits
  back as a number.
\<close>

definition digit :: "nat \<Rightarrow> char" where
  "digit d =
     (if d = 0 then CHR ''0'' else if d = 1 then CHR ''1'' else if d = 2 then CHR ''2''
      else if d = 3 then CHR ''3'' else if d = 4 then CHR ''4'' else if d = 5 then CHR ''5''
      else if d = 6 then CHR ''6'' else if d = 7 then CHR ''7'' else if d = 8 then CHR ''8''
      else CHR ''9'')"

fun string_of_nat :: "nat \<Rightarrow> string" where
  "string_of_nat n = (if n < 10 then [digit n] else string_of_nat (n div 10) @ [digit (n mod 10)])"

declare string_of_nat.simps [simp del]

definition string_of_int :: "int \<Rightarrow> string" where
  "string_of_int i = (if i < 0 then CHR ''-'' # string_of_nat (nat (- i)) else string_of_nat (nat i))"



section \<open>RateLimited\<close>

text \<open>
  \<^verbatim>\<open>rateLimitState\<close> is the map created once per \<^verbatim>\<open>RateLimited(options)\<close>; \<open>rl_applied\<close> counts how
  often \<^verbatim>\<open>target.apply\<close> ran. The key joins the class name of the receiver and the method name.
\<close>

record rl_world =
  rateLimitState :: "string \<Rightarrow> int list option"
  rl_applied :: nat

definition rl_init :: rl_world where
  "rl_init = \<lparr>rateLimitState = Map.empty, rl_applied = 0\<rparr>"

definition rl_key :: "string \<Rightarrow> string \<Rightarrow> string" where
  "rl_key instanceId methodName = instanceId @ '':'' @ methodName"

text \<open>\<^verbatim>\<open>rateLimitState.get(key) || []\<close>\<close>

definition rl_timestamps :: "rl_world \<Rightarrow> string \<Rightarrow> int list" where
  "rl_timestamps w key = (case rateLimitState w key of None \<Rightarrow> [] | Some ts \<Rightarrow> ts)"

text \<open>
  \<^verbatim>\<open>oldestRequest + window - now\<close>, where \<^verbatim>\<open>Math.min\<close> of no arguments is \<^verbatim>\<open>Infinity\<close>: \<open>None\<close> stands
  for that infinite value.
\<close>

definition resetTime :: "int list \<Rightarrow> int \<Rightarrow> int \<Rightarrow> int option" where
  "resetTime requestTimestamps window now =
     (if requestTimestamps = [] then None else Some (Min (set requestTimestamps) + window - now))"

text \<open>The message; \<^verbatim>\<open>Math.ceil(resetTime / 1000)\<close> is the ceiling of the quotient.\<close>

definition rate_limit_message :: "string \<Rightarrow> int option \<Rightarrow> string" where
  "rate_limit_message methodName rt =
     ''Rate limit exceeded for '' @ methodName @ ''. '' @ ''Try again in '' @
     (case rt of None \<Rightarrow> ''Infinity'' | Some r \<Rightarrow> string_of_int (- ((- r) div 1000))) @ '' seconds.''"

text \<open>
  The replacement method: \<open>now\<close> is \<^verbatim>\<open>Date.now()\<close>, \<open>out\<close> is what the target does if it is
  reached. The result is what the caller sees: the rate-limit error thrown by the wrapper, or
  whatever the target does.
\<close>

definition RateLimited_call ::
  "int \<Rightarrow> int \<Rightarrow> string \<Rightarrow> string \<Rightarrow> int \<Rightarrow> 'v outcome \<Rightarrow> rl_world \<Rightarrow> 'v outcome \<times> rl_world" where
  "RateLimited_call limit window methodName instanceId now out w =
     (let windowStart = now - window;
          key = rl_key instanceId methodName;
          requestTimestamps = filter (\<lambda>timestamp. timestamp > windowStart) (rl_timestamps w key)
      in if int (length requestTimestamps) \<ge> limit
         then (Throws (Error (rate_limit_message methodName (resetTime requestTimestamps window now))), w)
         else (out, w\<lparr>rateLimitState := (rateLimitState w)(key \<mapsto> requestTimestamps @ [now]),
                       rl_applied := rl_applied w + 1\<rparr>))"

text \<open>A sequence of calls (class name of the receiver, clock, outcome of the target) and their results.\<close>

fun rl_calls ::
  "int \<Rightarrow> int \<Rightarrow> string \<Rightarrow> (string \<times> int \<times> 'v outcome) list \<Rightarrow> rl_world \<Rightarrow> 'v outcome list \<times> rl_world" where
  "rl_calls limit window methodName [] w = ([], w)"
| "rl_calls limit window methodName ((instanceId, now, out) # cs) w =
     (let (r, w1) = RateLimited_call limit window methodName instanceId now out w;
          (rs, w2) = rl_calls limit window methodName cs w1
      in (r # rs, w2))"

section \<open>Cached\<close>



text \<open>
  The cache key: the result of the custom key function when one is given (\<open>key\<close>), otherwise
  class name, method name and \<^verbatim>\<open>JSON.stringify(args)\<close> (\<open>args\<close>) joined by colons.
\<close>

definition cacheKey :: "string option \<Rightarrow> string \<Rightarrow> string \<Rightarrow> string \<Rightarrow> string" where
  "cacheKey key instanceId methodName args =
     (case key of Some k \<Rightarrow> k | None \<Rightarrow> instanceId @ '':'' @ methodName @ '':'' @ args)"















section \<open>Timeout\<close>

text \<open>
  One call of the replacement method of \<^verbatim>\<open>Timeout(ms)\<close>. \<open>timer\<close> says whether the callback
  given to \<^verbatim>\<open>setTimeout\<close> is still scheduled; \<open>race\<close> is the promise returned by
  \<^verbatim>\<open>Promise.race\<close>, \<open>None\<close> while it is pending. The handle returned by \<^verbatim>\<open>setTimeout\<close> is not
  kept and the source never calls \<^verbatim>\<open>clearTimeout\<close>, so only firing ends a timer.
\<close>

record 'v timeout_call =
  timer :: bool
  race :: "'v settled option"

text \<open>
  The message of the timeout error, \<^verbatim>\<open>`${methodName} timed out after ${ms}ms`\<close>, for a bound
  \<open>ms\<close> that is an integer number of milliseconds below \<open>10^21\<close> in absolute value (see the
  rendering of numbers above).
\<close>

definition timeout_message :: "string \<Rightarrow> int \<Rightarrow> string" where
  "timeout_message methodName ms = methodName @ '' timed out after '' @ string_of_int ms @ ''ms''"

text \<open>The state right after the replacement method has returned, while the method's promise is pending.\<close>

definition Timeout_pending :: "'v timeout_call" where
  "Timeout_pending = \<lparr>timer = True, race = None\<rparr>"


text \<open>
  What the event loop delivers afterwards, in its order: the method's promise settles, or
  the timer fires. A promise settles once: \<^verbatim>\<open>Promise.race\<close> takes the first settlement and
  ignores every later one.
\<close>

datatype 'v timeout_event = MethodSettles "'v settled" | TimerFires

fun Timeout_step :: "string \<Rightarrow> int \<Rightarrow> 'v timeout_event \<Rightarrow> 'v timeout_call \<Rightarrow> 'v timeout_call" where
  "Timeout_step methodName ms (MethodSettles s) c = (if race c = None then c\<lparr>race := Some s\<rparr> else c)"
| "Timeout_step methodName ms TimerFires c =
     (if timer c then
        (if race c = None
         then c\<lparr>timer := False, race := Some (Rejected (Error (timeout_message methodName ms)))\<rparr>
         else c\<lparr>timer := False\<rparr>)
      else c)"

fun Timeout_steps :: "string \<Rightarrow> int \<Rightarrow> 'v timeout_event list \<Rightarrow> 'v timeout_call \<Rightarrow> 'v timeout_call" where
  "Timeout_steps methodName ms [] c = c"
| "Timeout_steps methodName ms (ev # evs) c = Timeout_steps methodName ms evs (Timeout_step methodName ms ev c)"

section \<open>DebounceSync and DebounceAsync\<close>

text \<open>
  The receiver \<^verbatim>\<open>this\<close> of a call: the name of its class (\<^verbatim>\<open>this.constructor.name\<close>) and which
  object it is.
\<close>

record receiver =
  className :: string
  objectId :: nat

text \<open>
  Every call of the replacement method sets one timer and returns one promise; both are
  identified by the number of the call. \<open>d_timer\<close> is what became of the timer, \<open>d_promise\<close>
  the state of the returned promise (\<open>None\<close> while pending).
\<close>

datatype timer_state = Armed | Cleared | Fired

record ('a, 'v) debounced =
  d_this :: receiver
  d_args :: 'a
  d_timer :: timer_state
  d_promise :: "'v settled option"

text \<open>
  \<^verbatim>\<open>timeoutMap\<close> is the map created once per \<^verbatim>\<open>DebounceSync(delay)\<close> or \<^verbatim>\<open>DebounceAsync(delay)\<close>;
  \<open>d_calls\<close> lists the calls made so far; \<open>d_applied\<close> lists the receivers and arguments the
  target was applied to, oldest first.
\<close>

record ('a, 'v) debounce_world =
  timeoutMap :: "string \<Rightarrow> nat option"
  d_calls :: "('a, 'v) debounced list"
  d_applied :: "(receiver \<times> 'a) list"

definition debounce_init :: "('a, 'v) debounce_world" where
  "debounce_init = \<lparr>timeoutMap = Map.empty, d_calls = [], d_applied = []\<rparr>"

definition debounce_key :: "receiver \<Rightarrow> string \<Rightarrow> string" where
  "debounce_key this methodName = className this @ ''.'' @ methodName"

text \<open>\<^verbatim>\<open>clearTimeout\<close>: a timer that already fired or was cleared is left as it is.\<close>

definition clearTimeout :: "nat \<Rightarrow> ('a, 'v) debounced list \<Rightarrow> ('a, 'v) debounced list" where
  "clearTimeout h cs =
     (if h < length cs \<and> d_timer (cs ! h) = Armed then cs[h := (cs ! h)\<lparr>d_timer := Cleared\<rparr>] else cs)"

text \<open>
  The replacement method; the code that handles the timer is the same in both variants.
  It returns the number of the new call, which identifies the promise handed to the caller.
\<close>

definition Debounce_call ::
  "string \<Rightarrow> receiver \<Rightarrow> 'a \<Rightarrow> ('a, 'v) debounce_world \<Rightarrow> nat \<times> ('a, 'v) debounce_world" where
  "Debounce_call methodName this args w =
     (let key = debounce_key this methodName;
          cs = (case timeoutMap w key of None \<Rightarrow> d_calls w | Some existingTimeout \<Rightarrow> clearTimeout existingTimeout (d_calls w));
          newTimeout = length cs
      in (newTimeout,
          w\<lparr>d_calls := cs @ [\<lparr>d_this = this, d_args = args, d_timer = Armed, d_promise = None\<rparr>],
            timeoutMap := (timeoutMap w)(key \<mapsto> newTimeout)\<rparr>))"

text \<open>
  The timer of call \<open>h\<close> fires: the target is applied to that call's receiver and arguments.
  In \<^verbatim>\<open>DebounceSync\<close> the promise is resolved with what the target returns, and a throw leaves
  the timer callback without resolving it; in \<^verbatim>\<open>DebounceAsync\<close> the target runs inside a
  \<^verbatim>\<open>then\<close> callback, so a throw rejects the promise.
\<close>

datatype debounce_variant = Sync | Async

definition Debounce_fire ::
  "debounce_variant \<Rightarrow> (receiver \<Rightarrow> 'a \<Rightarrow> 'v outcome) \<Rightarrow> nat \<Rightarrow> ('a, 'v) debounce_world \<Rightarrow> ('a, 'v) debounce_world" where
  "Debounce_fire variant target h w =
     (if h < length (d_calls w) \<and> d_timer (d_calls w ! h) = Armed then
        (let c = d_calls w ! h;
             out = target (d_this c) (d_args c);
             p = (case out of
                    Throws e \<Rightarrow> (if variant = Sync then None else Some (Rejected e))
                  | _ \<Rightarrow> Some (settle out))
         in w\<lparr>d_calls := (d_calls w)[h := c\<lparr>d_timer := Fired, d_promise := p\<rparr>],
              d_applied := d_applied w @ [(d_this c, d_args c)]\<rparr>)
      else w)"

text \<open>What happens to one debounced method over time: calls, and timers that fire.\<close>

datatype 'a debounce_event = Call receiver 'a | Fire nat

fun Debounce_step ::
  "debounce_variant \<Rightarrow> string \<Rightarrow> (receiver \<Rightarrow> 'a \<Rightarrow> 'v outcome) \<Rightarrow> 'a debounce_event \<Rightarrow>
   ('a, 'v) debounce_world \<Rightarrow> ('a, 'v) debounce_world" where
  "Debounce_step variant methodName target (Call this args) w = snd (Debounce_call methodName this args w)"
| "Debounce_step variant methodName target (Fire h) w = Debounce_fire variant target h w"

fun Debounce_run ::
  "debounce_variant \<Rightarrow> string \<Rightarrow> (receiver \<Rightarrow> 'a \<Rightarrow> 'v outcome) \<Rightarrow> 'a debounce_event list \<Rightarrow>
   ('a, 'v) debounce_world \<Rightarrow> ('a, 'v) debounce_world" where
  "Debounce_run variant methodName target [] w = w"
| "Debounce_run variant methodName target (ev # evs) w =
     Debounce_run variant methodName target evs (Debounce_step variant methodName target ev w)"

text \<open>
  Two predicates on worlds used in the proofs. A call is abandoned when its timer is no
  longer armed while its promise is pending. The handles are known when every handle stored
  in \<^verbatim>\<open>timeoutMap\<close> is the number of a call that was made.
\<close>

definition abandoned :: "nat \<Rightarrow> ('a, 'v) debounce_world \<Rightarrow> bool" where
  "abandoned h w = (h < length (d_calls w) \<and> d_timer (d_calls w ! h) \<noteq> Armed \<and> d_promise (d_calls w ! h) = None)"

definition handles_known :: "('a, 'v) debounce_world \<Rightarrow> bool" where
  "handles_known w = (\<forall>k h. timeoutMap w k = Some h \<longrightarrow> h < length (d_calls w))"

text \<open>
  An example of a decorated method, the search of the package's documentation: it returns a
  value computed from its argument.
\<close>

definition search :: "receiver \<Rightarrow> string \<Rightarrow> string outcome" where
  "search this query = Returns (''Searching for: '' @ query)"

text \<open>A second example: a search that throws.\<close>

definition search_unavailable :: "receiver \<Rightarrow> string \<Rightarrow> string outcome" where
  "search_unavailable this query = Throws (Error ''Search unavailable'')"

section \<open>Scheduling cleanup\<close>

text \<open>
  The three symbol-keyed properties of an instance. Each is absent (\<^verbatim>\<open>undefined\<close>, here \<open>None\<close>)
  or a \<^verbatim>\<open>Map\<close> from method name to handle; a \<^verbatim>\<open>Map\<close> iterates in insertion order, so it is a
  list of pairs. Handles (cron tasks, interval and timeout handles) are numbered.
\<close>

record schedulable =
  CRON_JOBS :: "(string \<times> nat) list option"
  INTERVALS :: "(string \<times> nat) list option"
  TIMEOUTS :: "(string \<times> nat) list option"

text \<open>\<^verbatim>\<open>Map.prototype.set\<close>: an existing key keeps its place and gets the new value.\<close>

definition map_set :: "string \<Rightarrow> nat \<Rightarrow> (string \<times> nat) list \<Rightarrow> (string \<times> nat) list" where
  "map_set k v xs =
     (if k \<in> fst ` set xs then map (\<lambda>(k', v'). if k' = k then (k', v) else (k', v')) xs else xs @ [(k, v)])"

text \<open>
  The initializers installed by \<^verbatim>\<open>Schedule\<close>, \<^verbatim>\<open>Interval\<close> and the scheduling \<^verbatim>\<open>Timeout\<close>: the map is
  created if absent and the new handle is stored under the method name.
\<close>

definition Schedule_initializer :: "string \<Rightarrow> nat \<Rightarrow> schedulable \<Rightarrow> schedulable" where
  "Schedule_initializer methodName job inst =
     inst\<lparr>CRON_JOBS := Some (map_set methodName job (case CRON_JOBS inst of None \<Rightarrow> [] | Some m \<Rightarrow> m))\<rparr>"

definition Interval_initializer :: "string \<Rightarrow> nat \<Rightarrow> schedulable \<Rightarrow> schedulable" where
  "Interval_initializer methodName intervalId inst =
     inst\<lparr>INTERVALS := Some (map_set methodName intervalId (case INTERVALS inst of None \<Rightarrow> [] | Some m \<Rightarrow> m))\<rparr>"

definition Timeout_initializer :: "string \<Rightarrow> nat \<Rightarrow> schedulable \<Rightarrow> schedulable" where
  "Timeout_initializer methodName timeoutId inst =
     inst\<lparr>TIMEOUTS := Some (map_set methodName timeoutId (case TIMEOUTS inst of None \<Rightarrow> [] | Some m \<Rightarrow> m))\<rparr>"

text \<open>
  \<^verbatim>\<open>cleanup\<close> returns the calls it makes to \<^verbatim>\<open>job.stop\<close>, \<^verbatim>\<open>clearInterval\<close> and \<^verbatim>\<open>clearTimeout\<close>, in
  order, and the instance with its maps cleared. None of its steps can raise.
\<close>

datatype effect = JobStop nat | ClearInterval nat | ClearTimeout nat

definition cleanup :: "schedulable \<Rightarrow> effect list \<times> schedulable" where
  "cleanup inst =
     (let (e1, i1) = (case CRON_JOBS inst of
                        None \<Rightarrow> ([], inst)
                      | Some jobs \<Rightarrow> (map (\<lambda>(name, job). JobStop job) jobs, inst\<lparr>CRON_JOBS := Some []\<rparr>));
          (e2, i2) = (case INTERVALS i1 of
                        None \<Rightarrow> ([], i1)
                      | Some timers \<Rightarrow> (map (\<lambda>(name, t). ClearInterval t) timers, i1\<lparr>INTERVALS := Some []\<rparr>));
          (e3, i3) = (case TIMEOUTS i2 of
                        None \<Rightarrow> ([], i2)
                      | Some timers \<Rightarrow> (map (\<lambda>(name, t). ClearTimeout t) timers, i2\<lparr>TIMEOUTS := Some []\<rparr>))
      in (e1 @ e2 @ e3, i3))"

text \<open>The handles of a property, in iteration order; none when the property is absent.\<close>

definition handles :: "(string \<times> nat) list option \<Rightarrow> nat list" where
  "handles m = (case m of None \<Rightarrow> [] | Some xs \<Rightarrow> map snd xs)"

definition cleared :: "(string \<times> nat) list option \<Rightarrow> (string \<times> nat) list option" where
  "cleared m = (case m of None \<Rightarrow> None | Some xs \<Rightarrow> Some [])"

section \<open>Properties of CircuitBreaker\<close>

lemma cb_run_append: "cb_run opts (cs @ ds) w = cb_run opts ds (cb_run opts cs w)"
  by (induction cs arbitrary: w) auto

lemma cb_call_failing_closed:
  assumes "state w = Closed" and "failing out"
  shows "snd (CircuitBreaker_call opts now later out w) =
           handleFailure opts later (w\<lparr>invocations := invocations w + 1\<rparr>)"
  using assms by (cases out) (simp_all add: CircuitBreaker_call_def cb_enter_def cb_settle_def)

lemma cb_call_success_closed:
  assumes "state w = Closed" and "\<not> failing out"
  shows "snd (CircuitBreaker_call opts now later out w) = w\<lparr>invocations := invocations w + 1\<rparr>"
  using assms
  by (cases out) (simp_all add: CircuitBreaker_call_def cb_enter_def cb_settle_def cb_success_def)

lemma handleFailure_below:
  assumes "state w = Closed" and "int (failures w) + 1 < failureThreshold opts"
  shows "state (handleFailure opts later w) = Closed \<and> failures (handleFailure opts later w) = failures w + 1"
  using assms by (simp add: handleFailure_def Let_def)

lemma handleFailure_reaches:
  assumes "int (failures w) + 1 \<ge> failureThreshold opts"
  shows "state (handleFailure opts later w) = Open"
  using assms by (simp add: handleFailure_def Let_def updateState_def)

text \<open>
  While fewer than \<open>failureThreshold\<close> calls have failed, the breaker stays closed and
  \<open>failures\<close> counts every failing call so far, whatever successes lie between them.
\<close>

lemma cb_run_counts:
  assumes "state w = Closed"
    and "int (failures w) + int (length (filter (\<lambda>c. failing (snd (snd c))) cs)) < failureThreshold opts"
  shows "state (cb_run opts cs w) = Closed \<and>
         failures (cb_run opts cs w) = failures w + length (filter (\<lambda>c. failing (snd (snd c))) cs)"
  using assms
proof (induction cs arbitrary: w)
  case Nil
  then show ?case by simp
next
  case (Cons c cs)
  obtain now later out where c: "c = (now, later, out)" by (cases c) auto
  let ?w' = "snd (CircuitBreaker_call opts now later out w)"
  show ?case
  proof (cases "failing out")
    case True
    have w': "?w' = handleFailure opts later (w\<lparr>invocations := invocations w + 1\<rparr>)"
      using Cons.prems(1) True by (rule cb_call_failing_closed)
    have below: "int (failures (w\<lparr>invocations := invocations w + 1\<rparr>)) + 1 < failureThreshold opts"
      using Cons.prems(2) True c by simp
    have st: "state ?w' = Closed" and fl: "failures ?w' = failures w + 1"
      using handleFailure_below [OF _ below] Cons.prems(1) w' by simp_all
    have "int (failures ?w') + int (length (filter (\<lambda>c. failing (snd (snd c))) cs)) < failureThreshold opts"
      using Cons.prems(2) True c fl by simp
    from Cons.IH [OF st this] show ?thesis
      using True c fl by simp
  next
    case False
    have w': "?w' = w\<lparr>invocations := invocations w + 1\<rparr>"
      using Cons.prems(1) False by (rule cb_call_success_closed)
    have st: "state ?w' = Closed" and fl: "failures ?w' = failures w"
      using Cons.prems(1) w' by simp_all
    have "int (failures ?w') + int (length (filter (\<lambda>c. failing (snd (snd c))) cs)) < failureThreshold opts"
      using Cons.prems(2) False c fl by simp
    from Cons.IH [OF st this] show ?thesis
      using False c fl by simp
  qed
qed

text \<open>
  C1. With \<open>failureThreshold = 3\<close>: three consecutive failing calls on a fresh breaker leave it
  open (with three counted failures and the time of the third failure recorded); a call made
  while it is open and before \<open>resetTimeout\<close> has elapsed since the last failure is rejected with
  the message \<open>Circuit breaker is open\<close> and changes nothing, so the target is not invoked;
  a call made while it is open once \<open>resetTimeout\<close> has elapsed is let through in the
  half-open state and reaches the target, and if the target succeeds the call settles with
  the target's value, \<open>failures\<close> is 0 and the state is closed.
\<close>

theorem circuit_breaker_threshold_three:
  "failureThreshold opts = 3 \<longrightarrow>
     (failing o1 \<and> failing o2 \<and> failing o3 \<longrightarrow>
        state (cb_run opts [(n1, l1, o1), (n2, l2, o2), (n3, l3, o3)] circuitState) = Open \<and>
        failures (cb_run opts [(n1, l1, o1), (n2, l2, o2), (n3, l3, o3)] circuitState) = 3 \<and>
        lastFailureTime (cb_run opts [(n1, l1, o1), (n2, l2, o2), (n3, l3, o3)] circuitState) = l3 \<and>
        invocations (cb_run opts [(n1, l1, o1), (n2, l2, o2), (n3, l3, o3)] circuitState) = 3) \<and>
     (state w = Open \<and> now - lastFailureTime w < resetTimeout opts \<longrightarrow>
        CircuitBreaker_call opts now later out w = (Rejected (Error ''Circuit breaker is open''), w)) \<and>
     (state w = Open \<and> now - lastFailureTime w \<ge> resetTimeout opts \<and> \<not> failing out \<longrightarrow>
        fst (cb_enter opts now w) = None \<and>
        state (snd (cb_enter opts now w)) = HalfOpen \<and>
        fst (CircuitBreaker_call opts now later out w) = settle out \<and>
        invocations (snd (CircuitBreaker_call opts now later out w)) = invocations w + 1 \<and>
        failures (snd (CircuitBreaker_call opts now later out w)) = 0 \<and>
        state (snd (CircuitBreaker_call opts now later out w)) = Closed)"
proof (intro impI conjI)
  assume th: "failureThreshold opts = 3" and f: "failing o1 \<and> failing o2 \<and> failing o3"
  let ?w1 = "snd (CircuitBreaker_call opts n1 l1 o1 circuitState)"
  let ?w2 = "snd (CircuitBreaker_call opts n2 l2 o2 ?w1)"
  let ?w3 = "snd (CircuitBreaker_call opts n3 l3 o3 ?w2)"
  have w1: "?w1 = \<lparr>failures = 1, state = Closed, lastFailureTime = l1, notified = [], invocations = 1\<rparr>"
    using f th by (simp add: cb_call_failing_closed circuitState_def handleFailure_def)
  have w2: "?w2 = \<lparr>failures = 2, state = Closed, lastFailureTime = l2, notified = [], invocations = 2\<rparr>"
    using f th by (simp add: w1 cb_call_failing_closed handleFailure_def)
  have w3: "?w3 = \<lparr>failures = 3, state = Open, lastFailureTime = l3, notified = [Open], invocations = 3\<rparr>"
    using f th by (simp add: w2 cb_call_failing_closed handleFailure_def updateState_def)
  have run: "cb_run opts [(n1, l1, o1), (n2, l2, o2), (n3, l3, o3)] circuitState = ?w3"
    by simp
  show "state (cb_run opts [(n1, l1, o1), (n2, l2, o2), (n3, l3, o3)] circuitState) = Open"
    unfolding run w3 by simp
  show "failures (cb_run opts [(n1, l1, o1), (n2, l2, o2), (n3, l3, o3)] circuitState) = 3"
    unfolding run w3 by simp
  show "lastFailureTime (cb_run opts [(n1, l1, o1), (n2, l2, o2), (n3, l3, o3)] circuitState) = l3"
    unfolding run w3 by simp
  show "invocations (cb_run opts [(n1, l1, o1), (n2, l2, o2), (n3, l3, o3)] circuitState) = 3"
    unfolding run w3 by simp
next
  assume "state w = Open \<and> now - lastFailureTime w < resetTimeout opts"
  then show "CircuitBreaker_call opts now later out w = (Rejected (Error ''Circuit breaker is open''), w)"
    by (simp add: CircuitBreaker_call_def cb_enter_def)
next
  assume a: "state w = Open \<and> now - lastFailureTime w \<ge> resetTimeout opts \<and> \<not> failing out"
  then have call: "CircuitBreaker_call opts now later out w =
      (settle out, (updateState Closed ((updateState HalfOpen w)\<lparr>invocations := invocations w + 1\<rparr>))\<lparr>failures := 0\<rparr>)"
    by (cases out)
       (simp_all add: CircuitBreaker_call_def cb_enter_def cb_settle_def cb_success_def updateState_def)
  show "fst (cb_enter opts now w) = None" and "state (snd (cb_enter opts now w)) = HalfOpen"
    using a by (simp_all add: cb_enter_def updateState_def)
  show "fst (CircuitBreaker_call opts now later out w) = settle out"
    by (simp add: call)
  show "invocations (snd (CircuitBreaker_call opts now later out w)) = invocations w + 1"
    by (simp add: call updateState_def)
  show "failures (snd (CircuitBreaker_call opts now later out w)) = 0"
    by (simp add: call)
  show "state (snd (CircuitBreaker_call opts now later out w)) = Closed"
    by (simp add: call updateState_def)
qed

theorem circuit_breaker_threshold_three_witness:
  "state (cb_run \<lparr>failureThreshold = 3, resetTimeout = 1000\<rparr>
      [(10, 11, Throws (Error ''down'')), (20, 25, Rejects (Error ''down'')), (30, 31, Throws (Error ''down'') :: nat outcome)]
      circuitState) = Open \<and>
   CircuitBreaker_call \<lparr>failureThreshold = 3, resetTimeout = 1000\<rparr> 500 501 (Returns (7::nat))
      \<lparr>failures = 3, state = Open, lastFailureTime = 31, notified = [Open], invocations = 3\<rparr> =
     (Rejected (Error ''Circuit breaker is open''),
      \<lparr>failures = 3, state = Open, lastFailureTime = 31, notified = [Open], invocations = 3\<rparr>) \<and>
   state (snd (CircuitBreaker_call \<lparr>failureThreshold = 3, resetTimeout = 1000\<rparr> 1031 1032 (Returns (7::nat))
      \<lparr>failures = 3, state = Open, lastFailureTime = 31, notified = [Open], invocations = 3\<rparr>)) = Closed \<and>
   failures (snd (CircuitBreaker_call \<lparr>failureThreshold = 3, resetTimeout = 1000\<rparr> 1031 1032 (Returns (7::nat))
      \<lparr>failures = 3, state = Open, lastFailureTime = 31, notified = [Open], invocations = 3\<rparr>)) = 0"
  using circuit_breaker_threshold_three
    [of "\<lparr>failureThreshold = 3, resetTimeout = 1000\<rparr>"
        "Throws (Error ''down'')" "Rejects (Error ''down'')" "Throws (Error ''down'') :: nat outcome"
        10 11 20 25 30 31
        "\<lparr>failures = 3, state = Open, lastFailureTime = 31, notified = [Open], invocations = 3\<rparr>"
        500 501 "Returns (7::nat)"]
    circuit_breaker_threshold_three
    [of "\<lparr>failureThreshold = 3, resetTimeout = 1000\<rparr>"
        "Throws (Error ''down'')" "Rejects (Error ''down'')" "Throws (Error ''down'') :: nat outcome"
        10 11 20 25 30 31
        "\<lparr>failures = 3, state = Open, lastFailureTime = 31, notified = [Open], invocations = 3\<rparr>"
        1031 1032 "Returns (7::nat)"]
  by simp

text \<open>
  C10. A successful call while the breaker is closed leaves \<open>failures\<close> (and the state)
  unchanged; a call can bring a non-zero \<open>failures\<close> to 0 only if the target succeeded and the
  breaker was half-open when the target was reached (already half-open, or open with
  \<open>resetTimeout\<close> elapsed, which moves it to half-open at the check); so on a fresh breaker
  with \<open>failureThreshold \<ge> 1\<close>, after any sequence of calls holding \<open>failureThreshold - 1\<close>
  failing calls in total, with any number of successful calls between them, the breaker is
  still closed and the next failing call opens it.
\<close>

theorem circuit_breaker_counts_all_failures:
  "(state w = Closed \<and> \<not> failing out \<longrightarrow>
      failures (snd (CircuitBreaker_call opts now later out w)) = failures w \<and>
      state (snd (CircuitBreaker_call opts now later out w)) = Closed) \<and>
   (failures (snd (CircuitBreaker_call opts now later out w)) = 0 \<and> failures w \<noteq> 0 \<longrightarrow>
      \<not> failing out \<and>
      (state w = HalfOpen \<or> (state w = Open \<and> now - lastFailureTime w \<ge> resetTimeout opts))) \<and>
   (1 \<le> failureThreshold opts \<and>
    int (length (filter (\<lambda>c. failing (snd (snd c))) cs)) = failureThreshold opts - 1 \<and> failing out \<longrightarrow>
      state (cb_run opts cs circuitState) = Closed \<and>
      state (cb_run opts (cs @ [(now, later, out)]) circuitState) = Open)"
proof (intro conjI impI)
  assume a: "state w = Closed \<and> \<not> failing out"
  then have "snd (CircuitBreaker_call opts now later out w) = w\<lparr>invocations := invocations w + 1\<rparr>"
    by (simp add: cb_call_success_closed)
  then show "failures (snd (CircuitBreaker_call opts now later out w)) = failures w"
    and "state (snd (CircuitBreaker_call opts now later out w)) = Closed"
    using a by simp_all
next
  assume z: "failures (snd (CircuitBreaker_call opts now later out w)) = 0 \<and> failures w \<noteq> 0"
  show "\<not> failing out"
  proof
    assume "failing out"
    then have "failures (snd (CircuitBreaker_call opts now later out w)) \<noteq> 0"
      using z
      by (cases out)
         (auto simp add: CircuitBreaker_call_def cb_enter_def cb_settle_def handleFailure_def
            updateState_def Let_def split: if_splits)
    with z show False by simp
  qed
  show "state w = HalfOpen \<or> (state w = Open \<and> now - lastFailureTime w \<ge> resetTimeout opts)"
    using z
    by (cases out; cases "state w")
       (auto simp add: CircuitBreaker_call_def cb_enter_def cb_settle_def cb_success_def
          handleFailure_def updateState_def Let_def split: if_splits)
next
  assume a: "1 \<le> failureThreshold opts \<and>
    int (length (filter (\<lambda>c. failing (snd (snd c))) cs)) = failureThreshold opts - 1 \<and> failing out"
  have init: "state circuitState = Closed" and f0: "failures circuitState = 0"
    by (simp_all add: circuitState_def)
  have below: "int (failures circuitState) + int (length (filter (\<lambda>c. failing (snd (snd c))) cs))
      < failureThreshold opts"
    using a f0 by simp
  have closed: "state (cb_run opts cs circuitState) = Closed"
    and cnt: "failures (cb_run opts cs circuitState) = length (filter (\<lambda>c. failing (snd (snd c))) cs)"
    using cb_run_counts [OF init below] f0 by simp_all
  show "state (cb_run opts cs circuitState) = Closed" by (rule closed)
  let ?w = "cb_run opts cs circuitState"
  have "snd (CircuitBreaker_call opts now later out ?w) =
      handleFailure opts later (?w\<lparr>invocations := invocations ?w + 1\<rparr>)"
    using closed a by (simp add: cb_call_failing_closed)
  moreover have "state (handleFailure opts later (?w\<lparr>invocations := invocations ?w + 1\<rparr>)) = Open"
    by (rule handleFailure_reaches) (use a cnt in simp)
  ultimately show "state (cb_run opts (cs @ [(now, later, out)]) circuitState) = Open"
    by (simp add: cb_run_append)
qed

theorem circuit_breaker_counts_all_failures_witness:
  "failures (snd (CircuitBreaker_call \<lparr>failureThreshold = 3, resetTimeout = 1000\<rparr> 40 41 (Returns (7::nat))
      \<lparr>failures = 2, state = Closed, lastFailureTime = 31, notified = [], invocations = 2\<rparr>)) = 2 \<and>
   state (cb_run \<lparr>failureThreshold = 3, resetTimeout = 1000\<rparr>
      ([(10, 11, Throws (Error ''down'')), (20, 21, Returns (1::nat)), (30, 31, Rejects (Error ''down'')),
        (40, 41, Resolves 2)] @ [(50, 51, Throws (Error ''down''))]) circuitState) = Open \<and>
   state (cb_run \<lparr>failureThreshold = 3, resetTimeout = 1000\<rparr>
      [(10, 11, Throws (Error ''down'')), (20, 21, Returns (1::nat)), (30, 31, Rejects (Error ''down'')),
        (40, 41, Resolves 2)] circuitState) = Closed \<and>
   failures (snd (CircuitBreaker_call \<lparr>failureThreshold = 3, resetTimeout = 1000\<rparr> 1051 1052 (Returns (7::nat))
      \<lparr>failures = 3, state = Open, lastFailureTime = 51, notified = [Open], invocations = 3\<rparr>)) = 0"
proof -
  have first: "failures (snd (CircuitBreaker_call \<lparr>failureThreshold = 3, resetTimeout = 1000\<rparr> 40 41 (Returns (7::nat))
      \<lparr>failures = 2, state = Closed, lastFailureTime = 31, notified = [], invocations = 2\<rparr>)) = 2"
    using circuit_breaker_counts_all_failures
      [of "\<lparr>failures = 2, state = Closed, lastFailureTime = 31, notified = [], invocations = 2\<rparr>"
          "Returns (7::nat)" "\<lparr>failureThreshold = 3, resetTimeout = 1000\<rparr>" 40 41 "[]"]
    by simp
  have third: "state (cb_run \<lparr>failureThreshold = 3, resetTimeout = 1000\<rparr>
      ([(10, 11, Throws (Error ''down'')), (20, 21, Returns (1::nat)), (30, 31, Rejects (Error ''down'')),
        (40, 41, Resolves 2)] @ [(50, 51, Throws (Error ''down''))]) circuitState) = Open \<and>
     state (cb_run \<lparr>failureThreshold = 3, resetTimeout = 1000\<rparr>
      [(10, 11, Throws (Error ''down'')), (20, 21, Returns (1::nat)), (30, 31, Rejects (Error ''down'')),
        (40, 41, Resolves 2)] circuitState) = Closed"
    using circuit_breaker_counts_all_failures
      [of circuitState "Throws (Error ''down'') :: nat outcome" "\<lparr>failureThreshold = 3, resetTimeout = 1000\<rparr>" 50 51
          "[(10, 11, Throws (Error ''down'')), (20, 21, Returns (1::nat)), (30, 31, Rejects (Error ''down'')),
            (40, 41, Resolves 2)]"]
    by simp
  have second: "failures (snd (CircuitBreaker_call \<lparr>failureThreshold = 3, resetTimeout = 1000\<rparr> 1051 1052 (Returns (7::nat))
      \<lparr>failures = 3, state = Open, lastFailureTime = 51, notified = [Open], invocations = 3\<rparr>)) = 0"
    by (simp add: CircuitBreaker_call_def cb_enter_def cb_settle_def cb_success_def updateState_def)
  from first third second show ?thesis by blast
qed

section \<open>Properties of Retry\<close>

lemma execute_all_failing:
  assumes fails: "\<forall>k. settle (target k) = Rejected (err k)"
    and cb: "onRetry opts"
  shows "attempts r \<le> maxRetries opts \<Longrightarrow>
         execute opts target r =
           (Rejected (err (maxRetries opts + 1)),
            r\<lparr>attempts := maxRetries opts + 1,
              applied := applied r + nat (maxRetries opts + 1 - attempts r),
              retried := retried r @ map (\<lambda>k. (err k, k)) [attempts r + 1..maxRetries opts],
              waits := waits r @ map (retry_delay opts) [attempts r + 1..maxRetries opts]\<rparr>)"
proof (induction "nat (maxRetries opts - attempts r)" arbitrary: r)
  case 0
  then have last: "attempts r = maxRetries opts" by simp
  show ?case
    by (subst execute.simps) (simp add: fails last Let_def)
next
  case (Suc n)
  let ?r2 = "r\<lparr>attempts := attempts r + 1, applied := applied r + 1,
                retried := retried r @ [(err (attempts r + 1), attempts r + 1)],
                waits := waits r @ [retry_delay opts (attempts r + 1)]\<rparr>"
  from Suc.hyps(2) have lt: "attempts r < maxRetries opts" by simp
  have n: "n = nat (maxRetries opts - attempts ?r2)" using Suc.hyps(2) by simp
  have le: "attempts ?r2 \<le> maxRetries opts" using lt by simp
  have step: "execute opts target r = execute opts target ?r2"
    by (subst execute.simps) (use lt in \<open>simp add: fails cb Let_def\<close>)
  have two: "attempts r + 1 + 1 = attempts r + 2" by simp
  have "[attempts r + 1..maxRetries opts] = (attempts r + 1) # [attempts r + 1 + 1..maxRetries opts]"
    using lt by (intro upto_rec1) simp
  then have up: "[attempts r + 1..maxRetries opts] = (attempts r + 1) # [attempts r + 2..maxRetries opts]"
    unfolding two .
  have cnt: "applied r + 1 + nat (maxRetries opts + 1 - (attempts r + 1)) =
             applied r + nat (maxRetries opts + 1 - attempts r)"
    using lt by simp
  show ?case
    unfolding step Suc.hyps(1) [OF n le] up
    using cnt by (simp add: add.commute add.left_commute)
qed

text \<open>
  C2. With \<open>maxRetries = N\<close> (\<open>N \<ge> 0\<close>) and an \<open>onRetry\<close> callback, a target that fails on every
  attempt (with error \<open>err k\<close> on attempt \<open>k\<close>) is applied exactly \<open>N + 1\<close> times, \<open>onRetry\<close> is
  called exactly \<open>N\<close> times, with attempt numbers 1, 2, ..., \<open>N\<close> in this order and the error
  of that attempt, and the call rejects with the error of the last attempt, unchanged.
\<close>

theorem retry_exhaustion:
  assumes "0 \<le> maxRetries opts" and "onRetry opts"
    and "\<forall>k. settle (target k) = Rejected (err k)"
  shows "fst (Retry_call opts target) = Rejected (err (maxRetries opts + 1)) \<and>
         int (applied (snd (Retry_call opts target))) = maxRetries opts + 1 \<and>
         int (length (retried (snd (Retry_call opts target)))) = maxRetries opts \<and>
         map snd (retried (snd (Retry_call opts target))) = [1..maxRetries opts] \<and>
         retried (snd (Retry_call opts target)) = map (\<lambda>k. (err k, k)) [1..maxRetries opts]"
proof -
  have "execute opts target \<lparr>attempts = 0, applied = 0, retried = [], waits = []\<rparr> =
          (Rejected (err (maxRetries opts + 1)),
           \<lparr>attempts = maxRetries opts + 1, applied = nat (maxRetries opts + 1),
            retried = map (\<lambda>k. (err k, k)) [1..maxRetries opts],
            waits = map (retry_delay opts) [1..maxRetries opts]\<rparr>)"
    using execute_all_failing [OF assms(3) assms(2), of "\<lparr>attempts = 0, applied = 0, retried = [], waits = []\<rparr>"]
      assms(1) by simp
  then show ?thesis
    using assms(1) by (simp add: Retry_call_def comp_def)
qed

theorem retry_exhaustion_witness:
  "fst (Retry_call \<lparr>maxRetries = 2, strategy = Exponential, backoff = Some 10, onRetry = True\<rparr>
          (\<lambda>k. Throws (Error (if k = 1 then ''first'' else if k = 2 then ''second'' else ''third'')) :: nat outcome))
     = Rejected (Error ''third'') \<and>
   applied (snd (Retry_call \<lparr>maxRetries = 2, strategy = Exponential, backoff = Some 10, onRetry = True\<rparr>
          (\<lambda>k. Throws (Error (if k = 1 then ''first'' else if k = 2 then ''second'' else ''third'')) :: nat outcome)))
     = 3 \<and>
   retried (snd (Retry_call \<lparr>maxRetries = 2, strategy = Exponential, backoff = Some 10, onRetry = True\<rparr>
          (\<lambda>k. Throws (Error (if k = 1 then ''first'' else if k = 2 then ''second'' else ''third'')) :: nat outcome)))
     = [(Error ''first'', 1), (Error ''second'', 2)]"
  using retry_exhaustion
    [of "\<lparr>maxRetries = 2, strategy = Exponential, backoff = Some 10, onRetry = True\<rparr>"
        "\<lambda>k. Throws (Error (if k = 1 then ''first'' else if k = 2 then ''second'' else ''third'')) :: nat outcome"
        "\<lambda>k. Error (if k = 1 then ''first'' else if k = 2 then ''second'' else ''third'')"]
  by (simp add: upto_rec1)

section \<open>Properties of RateLimited\<close>

lemma filter_full_length:
  assumes "length (filter P xs) \<ge> length xs"
  shows "filter P xs = xs"
proof -
  have "length (filter P xs) + length (filter (\<lambda>x. \<not> P x) xs) = length xs"
    by (rule sum_length_filter_compl)
  with assms have "length (filter (\<lambda>x. \<not> P x) xs) = 0" by arith
  then have "filter (\<lambda>x. \<not> P x) xs = []" by (simp only: length_0_conv)
  then have "\<forall>x \<in> set xs. P x" by (simp add: filter_empty_conv)
  then show ?thesis by simp
qed

text \<open>No key ever holds more timestamps than the limit allows.\<close>

lemma RateLimited_call_bound:
  assumes "\<forall>k. int (length (rl_timestamps w k)) \<le> max 0 limit"
  shows "\<forall>k. int (length (rl_timestamps (snd (RateLimited_call limit window methodName instanceId now out w)) k))
            \<le> max 0 limit"
  using assms by (auto simp add: RateLimited_call_def Let_def rl_timestamps_def)

lemma rl_calls_bound:
  assumes "\<forall>k. int (length (rl_timestamps w k)) \<le> max 0 limit"
  shows "\<forall>k. int (length (rl_timestamps (snd (rl_calls limit window methodName cs w)) k)) \<le> max 0 limit"
  using assms
proof (induction cs arbitrary: w)
  case Nil
  then show ?case by simp
next
  case (Cons c cs)
  obtain instanceId now out where c: "c = (instanceId, now, out)" by (cases c) auto
  have "\<forall>k. int (length (rl_timestamps (snd (rl_calls limit window methodName cs
            (snd (RateLimited_call limit window methodName instanceId now out w)))) k)) \<le> max 0 limit"
    by (rule Cons.IH) (rule RateLimited_call_bound [OF Cons.prems])
  then show ?case by (simp add: c split_beta Let_def)
qed

lemma rl_init_bound: "\<forall>k. int (length (rl_timestamps rl_init k)) \<le> max 0 limit"
  by (simp add: rl_init_def rl_timestamps_def)

lemma rejected_record_is_pruned:
  assumes "int (length (rl_timestamps w k)) \<le> max 0 limit"
    and "int (length (filter P (rl_timestamps w k))) \<ge> limit"
  shows "filter P (rl_timestamps w k) = rl_timestamps w k"
proof (cases "limit \<le> 0")
  case True
  with assms(1) show ?thesis by simp
next
  case False
  with assms have "length (filter P (rl_timestamps w k)) \<ge> length (rl_timestamps w k)" by simp
  then show ?thesis by (rule filter_full_length)
qed

text \<open>
  C3, as stated, prunes the timestamps older than \<open>now - window\<close> and counts the others. The
  code also prunes a timestamp equal to \<open>now - window\<close>. With \<open>limit = 1\<close> and \<open>window = 100\<close>,
  after a call at clock 0 the record is \<open>[0]\<close>; at clock 100 that timestamp is not older than
  \<open>now - window = 0\<close>, so by the claim one timestamp remains, the limit is reached and the call
  must fail. The code lets the call through: the target is applied a second time and the
  record becomes \<open>[100]\<close>.
\<close>

theorem rate_limited_boundary_counterexample:
  "\<not> ((0::int) < 100 - 100) \<and>
   rl_calls 1 100 ''method'' [(''Test'', 0, Returns ''result'')] rl_init =
     ([Returns ''result''], \<lparr>rateLimitState = Map.empty(''Test:method'' \<mapsto> [0]), rl_applied = 1\<rparr>) \<and>
   RateLimited_call 1 100 ''method'' ''Test'' 100 (Returns ''result'')
       \<lparr>rateLimitState = Map.empty(''Test:method'' \<mapsto> [0]), rl_applied = 1\<rparr> =
     (Returns ''result'', \<lparr>rateLimitState = Map.empty(''Test:method'' \<mapsto> [100]), rl_applied = 2\<rparr>)"
  by (simp add: RateLimited_call_def Let_def rl_init_def rl_timestamps_def rl_key_def)

text \<open>
  C3, amended. For a call with receiver class \<open>c\<close> at clock \<open>now\<close>, the timestamps of the key's
  record that are at most \<open>now - window\<close> (older than or equal to it) are pruned: the remaining
  timestamps are those greater than \<open>now - window\<close>.
  If their count is at least \<open>limit\<close>, the call throws (synchronously) the error whose message
  starts with \<open>Rate limit exceeded for <methodName>\<close> and carries the retry-after computed from
  \<open>oldest remaining timestamp + window - now\<close>, and nothing else changes: the target is not applied.
  Otherwise the record becomes the remaining timestamps followed by \<open>now\<close>, the target is
  applied once and the caller gets what the target does.
  In every state reached by calls from the initial one, the record of the key after a call
  holds exactly the remaining timestamps (followed by \<open>now\<close> when the call was let through),
  also when the call was refused.
  With \<open>limit = 2\<close> and \<open>window = 100\<close>: of four calls at clocks \<open>t1 \<le> t2 \<le> t3 < t1 + 100 \<le> t4\<close>
  the first two are let through, the third throws, and the fourth is let through again.
\<close>

theorem rate_limited_sliding_window:
  "(int (length (filter (\<lambda>t. t > now - window) (rl_timestamps w (rl_key c m)))) \<ge> limit \<longrightarrow>
      RateLimited_call limit window m c now out w =
        (Throws (Error (rate_limit_message m
           (resetTime (filter (\<lambda>t. t > now - window) (rl_timestamps w (rl_key c m))) window now))), w) \<and>
      (filter (\<lambda>t. t > now - window) (rl_timestamps w (rl_key c m)) \<noteq> [] \<longrightarrow>
         resetTime (filter (\<lambda>t. t > now - window) (rl_timestamps w (rl_key c m))) window now =
           Some (Min (set (filter (\<lambda>t. t > now - window) (rl_timestamps w (rl_key c m)))) + window - now))) \<and>
   take (length (''Rate limit exceeded for '' @ m)) (rate_limit_message m rt) = ''Rate limit exceeded for '' @ m \<and>
   (int (length (filter (\<lambda>t. t > now - window) (rl_timestamps w (rl_key c m)))) < limit \<longrightarrow>
      RateLimited_call limit window m c now out w =
        (out, w\<lparr>rateLimitState := (rateLimitState w)
                   (rl_key c m \<mapsto> filter (\<lambda>t. t > now - window) (rl_timestamps w (rl_key c m)) @ [now]),
                 rl_applied := rl_applied w + 1\<rparr>)) \<and>
   rl_timestamps (snd (RateLimited_call limit window m c now out (snd (rl_calls limit window m cs rl_init))))
       (rl_key c m) =
     (if int (length (filter (\<lambda>t. t > now - window)
                (rl_timestamps (snd (rl_calls limit window m cs rl_init)) (rl_key c m)))) \<ge> limit
      then filter (\<lambda>t. t > now - window) (rl_timestamps (snd (rl_calls limit window m cs rl_init)) (rl_key c m))
      else filter (\<lambda>t. t > now - window) (rl_timestamps (snd (rl_calls limit window m cs rl_init)) (rl_key c m))
             @ [now]) \<and>
   (t1 \<le> t2 \<and> t2 \<le> t3 \<and> t3 < t1 + 100 \<and> t1 + 100 \<le> t4 \<longrightarrow>
      fst (rl_calls 2 100 m [(c, t1, out), (c, t2, out), (c, t3, out), (c, t4, out)] rl_init) =
        [out, out, Throws (Error (rate_limit_message m (Some (t1 + 100 - t3)))), out])"
proof (intro conjI impI)
  assume "int (length (filter (\<lambda>t. t > now - window) (rl_timestamps w (rl_key c m)))) \<ge> limit"
  then show "RateLimited_call limit window m c now out w =
        (Throws (Error (rate_limit_message m
           (resetTime (filter (\<lambda>t. t > now - window) (rl_timestamps w (rl_key c m))) window now))), w)"
    by (simp add: RateLimited_call_def Let_def)
next
  assume "filter (\<lambda>t. t > now - window) (rl_timestamps w (rl_key c m)) \<noteq> []"
  then show "resetTime (filter (\<lambda>t. t > now - window) (rl_timestamps w (rl_key c m))) window now =
           Some (Min (set (filter (\<lambda>t. t > now - window) (rl_timestamps w (rl_key c m)))) + window - now)"
    by (simp only: resetTime_def if_False)
next
  show "take (length (''Rate limit exceeded for '' @ m)) (rate_limit_message m rt) = ''Rate limit exceeded for '' @ m"
    by (simp add: rate_limit_message_def)
next
  assume "int (length (filter (\<lambda>t. t > now - window) (rl_timestamps w (rl_key c m)))) < limit"
  then show "RateLimited_call limit window m c now out w =
        (out, w\<lparr>rateLimitState := (rateLimitState w)
                   (rl_key c m \<mapsto> filter (\<lambda>t. t > now - window) (rl_timestamps w (rl_key c m)) @ [now]),
                 rl_applied := rl_applied w + 1\<rparr>)"
    by (simp add: RateLimited_call_def Let_def)
next
  let ?w = "snd (rl_calls limit window m cs rl_init)"
  let ?kept = "filter (\<lambda>t. t > now - window) (rl_timestamps ?w (rl_key c m))"
  have bound: "int (length (rl_timestamps ?w (rl_key c m))) \<le> max 0 limit"
    using rl_calls_bound [OF rl_init_bound] by blast
  show "rl_timestamps (snd (RateLimited_call limit window m c now out ?w)) (rl_key c m) =
     (if int (length ?kept) \<ge> limit then ?kept else ?kept @ [now])"
  proof (cases "int (length ?kept) \<ge> limit")
    case True
    have "?kept = rl_timestamps ?w (rl_key c m)"
      using bound True by (rule rejected_record_is_pruned)
    then show ?thesis
      using True by (simp add: RateLimited_call_def Let_def)
  next
    case False
    then show ?thesis
      by (simp add: RateLimited_call_def Let_def rl_timestamps_def)
  qed
next
  assume t: "t1 \<le> t2 \<and> t2 \<le> t3 \<and> t3 < t1 + 100 \<and> t1 + 100 \<le> t4"
  let ?k = "rl_key c m"
  let ?w1 = "\<lparr>rateLimitState = Map.empty(?k \<mapsto> [t1]), rl_applied = 1\<rparr>"
  let ?w2 = "\<lparr>rateLimitState = Map.empty(?k \<mapsto> [t1, t2]), rl_applied = 2\<rparr>"
  have c1: "RateLimited_call 2 100 m c t1 out rl_init = (out, ?w1)"
    by (simp add: RateLimited_call_def Let_def rl_init_def rl_timestamps_def)
  have c2: "RateLimited_call 2 100 m c t2 out ?w1 = (out, ?w2)"
    using t by (simp add: RateLimited_call_def Let_def rl_timestamps_def)
  have c3: "RateLimited_call 2 100 m c t3 out ?w2 =
      (Throws (Error (rate_limit_message m (Some (t1 + 100 - t3)))), ?w2)"
    using t by (simp add: RateLimited_call_def Let_def rl_timestamps_def resetTime_def min_def)
  have "fst (RateLimited_call 2 100 m c t4 out ?w2) = out"
    using t by (simp add: RateLimited_call_def Let_def rl_timestamps_def)
  then obtain w4 where c4: "RateLimited_call 2 100 m c t4 out ?w2 = (out, w4)"
    by (cases "RateLimited_call 2 100 m c t4 out ?w2") simp
  show "fst (rl_calls 2 100 m [(c, t1, out), (c, t2, out), (c, t3, out), (c, t4, out)] rl_init) =
        [out, out, Throws (Error (rate_limit_message m (Some (t1 + 100 - t3)))), out]"
    by (simp only: rl_calls.simps Let_def c1 c2 c3 c4 prod.case fst_conv)
qed

theorem rate_limited_sliding_window_witness:
  "RateLimited_call 2 100 ''method'' ''Test'' 30 (Returns ''result'')
      \<lparr>rateLimitState = Map.empty(''Test:method'' \<mapsto> [10, 20]), rl_applied = 2\<rparr> =
     (Throws (Error ''Rate limit exceeded for method. Try again in 1 seconds.''),
      \<lparr>rateLimitState = Map.empty(''Test:method'' \<mapsto> [10, 20]), rl_applied = 2\<rparr>) \<and>
   fst (RateLimited_call 2 100 ''method'' ''Test'' 115 (Returns ''result'')
      \<lparr>rateLimitState = Map.empty(''Test:method'' \<mapsto> [10, 20]), rl_applied = 2\<rparr>) = Returns ''result'' \<and>
   rl_timestamps (snd (RateLimited_call 2 100 ''method'' ''Test'' 115 (Returns ''result'')
      \<lparr>rateLimitState = Map.empty(''Test:method'' \<mapsto> [10, 20]), rl_applied = 2\<rparr>)) ''Test:method'' = [20, 115] \<and>
   fst (rl_calls 2 100 ''method''
      [(''Test'', 10, Returns ''result''), (''Test'', 20, Returns ''result''),
       (''Test'', 30, Returns ''result''), (''Test'', 181, Returns ''result'')] rl_init) =
     [Returns ''result'', Returns ''result'',
      Throws (Error ''Rate limit exceeded for method. Try again in 1 seconds.''), Returns ''result'']"
proof -
  note at30 = rate_limited_sliding_window
      [of 2 30 100 "\<lparr>rateLimitState = Map.empty(''Test:method'' \<mapsto> [10, 20]), rl_applied = 2\<rparr>"
          "''Test''" "''method''" "Returns ''result''" None "[]" 10 20 30 181]
  note at115 = rate_limited_sliding_window
      [of 2 115 100 "\<lparr>rateLimitState = Map.empty(''Test:method'' \<mapsto> [10, 20]), rl_applied = 2\<rparr>"
          "''Test''" "''method''" "Returns ''result''" None "[]" 10 20 30 181]
  have refused: "RateLimited_call 2 100 ''method'' ''Test'' 30 (Returns ''result'')
      \<lparr>rateLimitState = Map.empty(''Test:method'' \<mapsto> [10, 20]), rl_applied = 2\<rparr> =
     (Throws (Error ''Rate limit exceeded for method. Try again in 1 seconds.''),
      \<lparr>rateLimitState = Map.empty(''Test:method'' \<mapsto> [10, 20]), rl_applied = 2\<rparr>)"
    using at30 [THEN conjunct1]
    by (simp add: rl_key_def rl_timestamps_def resetTime_def rate_limit_message_def
          string_of_int_def string_of_nat.simps digit_def)
  have passed: "RateLimited_call 2 100 ''method'' ''Test'' 115 (Returns ''result'')
      \<lparr>rateLimitState = Map.empty(''Test:method'' \<mapsto> [10, 20]), rl_applied = 2\<rparr> =
     (Returns ''result'',
      \<lparr>rateLimitState = (Map.empty(''Test:method'' \<mapsto> [10, 20]))(''Test:method'' \<mapsto> [20, 115]), rl_applied = 3\<rparr>)"
    using at115 [THEN conjunct2, THEN conjunct2, THEN conjunct1]
    by (simp add: rl_key_def rl_timestamps_def)
  have scenario: "fst (rl_calls 2 100 ''method''
      [(''Test'', 10, Returns ''result''), (''Test'', 20, Returns ''result''),
       (''Test'', 30, Returns ''result''), (''Test'', 181, Returns ''result'')] rl_init) =
     [Returns ''result'', Returns ''result'',
      Throws (Error ''Rate limit exceeded for method. Try again in 1 seconds.''), Returns ''result'']"
    using at30 [THEN conjunct2, THEN conjunct2, THEN conjunct2, THEN conjunct2]
    by (simp add: rate_limit_message_def string_of_int_def string_of_nat.simps digit_def)
  show ?thesis
    using refused scenario by (simp add: passed rl_timestamps_def)
qed

section \<open>Properties of Cached\<close>

















section \<open>Properties of Timeout\<close>

lemma Timeout_step_settled:
  assumes "race c = Some s"
  shows "race (Timeout_step methodName ms ev c) = Some s"
  using assms by (cases ev) simp_all

lemma Timeout_steps_settled:
  assumes "race c = Some s"
  shows "race (Timeout_steps methodName ms evs c) = Some s"
  using assms
proof (induction evs arbitrary: c)
  case Nil
  then show ?case by simp
next
  case (Cons ev evs)
  from Cons.prems have "race (Timeout_step methodName ms ev c) = Some s"
    by (rule Timeout_step_settled)
  then show ?case using Cons.IH by simp
qed

lemma Timeout_steps_append:
  "Timeout_steps methodName ms (evs @ evs') c = Timeout_steps methodName ms evs' (Timeout_steps methodName ms evs c)"
  by (induction evs arbitrary: c) simp_all

lemma Timeout_steps_timer_stays:
  assumes "timer c" and "TimerFires \<notin> set evs"
  shows "timer (Timeout_steps methodName ms evs c)"
  using assms
proof (induction evs arbitrary: c)
  case Nil
  then show ?case by simp
next
  case (Cons ev evs)
  from Cons.prems obtain s where ev: "ev = MethodSettles s" by (cases ev) auto
  have "timer (Timeout_step methodName ms ev c)" using Cons.prems(1) ev by simp
  then show ?case using Cons.IH Cons.prems(2) by simp
qed






text \<open>
  C6, as stated, has the timer disarmed once the method has won the race. In the code nothing
  cancels it: after a method's promise fulfilled first, with a bound of 100 ms, the timer is
  still scheduled.
\<close>

theorem timeout_timer_left_armed_counterexample:
  "timer (Timeout_steps ''callExternalApi'' 100 [MethodSettles (Fulfilled (1::nat))] Timeout_pending) \<and>
   race (Timeout_steps ''callExternalApi'' 100 [MethodSettles (Fulfilled (1::nat))] Timeout_pending) =
     Some (Fulfilled 1)"
  by (simp add: Timeout_pending_def)

text \<open>
  C6, amended. When the method's promise settles before the timer fires, the timer is not
  cancelled: it stays scheduled until it fires at the deadline. Its firing then finds the
  race already settled, so the wrapper's result stays the method's, and only then is no
  timer left.
\<close>

theorem timeout_timer_runs_out:
  "(TimerFires \<notin> set evs \<longrightarrow>
      timer (Timeout_steps methodName ms (MethodSettles s # evs) Timeout_pending) \<and>
      \<not> timer (Timeout_steps methodName ms (MethodSettles s # evs @ [TimerFires]) Timeout_pending)) \<and>
   race (Timeout_steps methodName ms (MethodSettles s # evs @ [TimerFires]) Timeout_pending) = Some s"
proof (intro conjI impI)
  assume no: "TimerFires \<notin> set evs"
  have start: "timer (Timeout_step methodName ms (MethodSettles s) Timeout_pending)"
    by (simp add: Timeout_pending_def)
  from start no have armed: "timer (Timeout_steps methodName ms evs (Timeout_step methodName ms (MethodSettles s) Timeout_pending))"
    by (rule Timeout_steps_timer_stays)
  then show "timer (Timeout_steps methodName ms (MethodSettles s # evs) Timeout_pending)"
    by simp
  have "Timeout_steps methodName ms (MethodSettles s # evs @ [TimerFires]) Timeout_pending =
      Timeout_step methodName ms TimerFires
        (Timeout_steps methodName ms evs (Timeout_step methodName ms (MethodSettles s) Timeout_pending))"
    by (simp add: Timeout_steps_append)
  then show "\<not> timer (Timeout_steps methodName ms (MethodSettles s # evs @ [TimerFires]) Timeout_pending)"
    using armed by simp
next
  show "race (Timeout_steps methodName ms (MethodSettles s # evs @ [TimerFires]) Timeout_pending) = Some s"
    by (simp add: Timeout_steps_settled Timeout_pending_def)
qed

theorem timeout_timer_runs_out_witness:
  "timer (Timeout_steps ''callExternalApi'' 100
      (MethodSettles (Fulfilled (1::nat)) # [MethodSettles (Fulfilled 2)]) Timeout_pending) \<and>
   \<not> timer (Timeout_steps ''callExternalApi'' 100
      (MethodSettles (Fulfilled (1::nat)) # [MethodSettles (Fulfilled 2)] @ [TimerFires]) Timeout_pending) \<and>
   race (Timeout_steps ''callExternalApi'' 100
      (MethodSettles (Fulfilled (1::nat)) # [MethodSettles (Fulfilled 2)] @ [TimerFires]) Timeout_pending) =
     Some (Fulfilled 1)"
  using timeout_timer_runs_out
    [of "[MethodSettles (Fulfilled (2::nat))]" "''callExternalApi''" 100 "Fulfilled (1::nat)"]
  by (simp add: Timeout_pending_def)

section \<open>Properties of Debounce\<close>

lemma length_clearTimeout [simp]: "length (clearTimeout h cs) = length cs"
  by (simp add: clearTimeout_def)

lemma clearTimeout_promise [simp]:
  "i < length cs \<Longrightarrow> d_promise (clearTimeout h cs ! i) = d_promise (cs ! i)"
  by (cases "i = h") (simp_all add: clearTimeout_def)

lemma clearTimeout_not_armed:
  "i < length cs \<Longrightarrow> d_timer (cs ! i) \<noteq> Armed \<Longrightarrow> d_timer (clearTimeout h cs ! i) \<noteq> Armed"
  by (cases "i = h") (simp_all add: clearTimeout_def)

lemma clearTimeout_clears:
  "h < length cs \<Longrightarrow> d_timer (cs ! h) = Armed \<Longrightarrow> d_timer (clearTimeout h cs ! h) = Cleared"
  by (simp add: clearTimeout_def)

lemma clearTimeout_other:
  "i \<noteq> h \<Longrightarrow> clearTimeout h cs ! i = cs ! i"
  by (simp add: clearTimeout_def)

lemma Debounce_call_abandoned:
  assumes "abandoned h w"
  shows "abandoned h (snd (Debounce_call methodName this args w))"
  using assms
  by (auto simp add: abandoned_def Debounce_call_def Let_def nth_append clearTimeout_not_armed
        split: option.split)

lemma Debounce_fire_abandoned:
  assumes "abandoned h w"
  shows "abandoned h (Debounce_fire variant target h' w)"
proof (cases "h' = h")
  case True
  then show ?thesis using assms by (simp add: abandoned_def Debounce_fire_def)
next
  case False
  then show ?thesis using assms by (simp add: abandoned_def Debounce_fire_def Let_def)
qed

lemma Debounce_run_abandoned:
  assumes "abandoned h w"
  shows "abandoned h (Debounce_run variant methodName target evs w)"
  using assms
proof (induction evs arbitrary: w)
  case Nil
  then show ?case by simp
next
  case (Cons ev evs)
  have "abandoned h (Debounce_step variant methodName target ev w)"
    using Cons.prems by (cases ev) (simp_all add: Debounce_call_abandoned Debounce_fire_abandoned)
  then show ?case using Cons.IH by simp
qed

lemma handles_known_init: "handles_known debounce_init"
  by (simp add: handles_known_def debounce_init_def)

lemma Debounce_step_handles_known:
  assumes "handles_known w"
  shows "handles_known (Debounce_step variant methodName target ev w)"
proof (cases ev)
  case (Call this args)
  then show ?thesis
    using assms
    by (auto simp add: handles_known_def Debounce_call_def Let_def less_Suc_eq split: option.split)
next
  case (Fire h)
  then show ?thesis
    using assms by (auto simp add: handles_known_def Debounce_fire_def Let_def)
qed

lemma Debounce_run_handles_known:
  assumes "handles_known w"
  shows "handles_known (Debounce_run variant methodName target evs w)"
  using assms
proof (induction evs arbitrary: w)
  case Nil
  then show ?case by simp
next
  case (Cons ev evs)
  then show ?case by (simp add: Debounce_step_handles_known)
qed

text \<open>What two calls in a row do to the timer of the first one.\<close>

lemma Debounce_call_fresh:
  "fst (Debounce_call methodName this args w) = length (d_calls w) \<and>
   length (d_calls (snd (Debounce_call methodName this args w))) = Suc (length (d_calls w)) \<and>
   d_calls (snd (Debounce_call methodName this args w)) ! length (d_calls w) =
     \<lparr>d_this = this, d_args = args, d_timer = Armed, d_promise = None\<rparr> \<and>
   timeoutMap (snd (Debounce_call methodName this args w)) (debounce_key this methodName) =
     Some (length (d_calls w)) \<and>
   (\<forall>k. k \<noteq> debounce_key this methodName \<longrightarrow>
        timeoutMap (snd (Debounce_call methodName this args w)) k = timeoutMap w k) \<and>
   d_applied (snd (Debounce_call methodName this args w)) = d_applied w"
  by (simp add: Debounce_call_def Let_def nth_append split: option.split)

lemma Debounce_call_same_key:
  assumes "timeoutMap w (debounce_key this methodName) = Some h" and "h < length (d_calls w)"
    and "d_timer (d_calls w ! h) = Armed"
  shows "d_timer (d_calls (snd (Debounce_call methodName this args w)) ! h) = Cleared \<and>
         d_promise (d_calls (snd (Debounce_call methodName this args w)) ! h) = d_promise (d_calls w ! h)"
  using assms by (simp add: Debounce_call_def Let_def nth_append clearTimeout_clears)

lemma Debounce_call_other_key:
  assumes "timeoutMap w (debounce_key this methodName) \<noteq> Some h" and "h < length (d_calls w)"
  shows "d_calls (snd (Debounce_call methodName this args w)) ! h = d_calls w ! h"
  using assms by (auto simp add: Debounce_call_def Let_def nth_append clearTimeout_other split: option.split)

text \<open>
  C7, as stated, resolves the deferred value of every caller, also of a superseded one, to
  the outcome of the one real invocation. In the code a superseded call's timer is cleared
  and nothing else ever resolves its promise: after two calls \<open>search('a')\<close>, \<open>search('ab')\<close> on
  one object and the firing of the surviving timer, the target has run once, on \<open>'ab'\<close>, the
  second caller's promise is fulfilled with that result, and the first caller's promise is
  still pending. And in \<open>DebounceSync\<close> an invocation that throws is not delivered to any
  caller: after one call of a search that throws and the firing of its timer, the target has
  run once and the caller's promise is still pending.
\<close>

theorem debounce_superseded_pending_counterexample:
  "d_promise (d_calls (Debounce_run Sync ''search'' search
      [Call \<lparr>className = ''SearchService'', objectId = 1\<rparr> ''a'',
       Call \<lparr>className = ''SearchService'', objectId = 1\<rparr> ''ab'', Fire 1, Fire 0] debounce_init) ! 0) = None \<and>
   d_promise (d_calls (Debounce_run Sync ''search'' search
      [Call \<lparr>className = ''SearchService'', objectId = 1\<rparr> ''a'',
       Call \<lparr>className = ''SearchService'', objectId = 1\<rparr> ''ab'', Fire 1, Fire 0] debounce_init) ! 1) =
     Some (Fulfilled ''Searching for: ab'') \<and>
   d_applied (Debounce_run Sync ''search'' search
      [Call \<lparr>className = ''SearchService'', objectId = 1\<rparr> ''a'',
       Call \<lparr>className = ''SearchService'', objectId = 1\<rparr> ''ab'', Fire 1, Fire 0] debounce_init) =
     [(\<lparr>className = ''SearchService'', objectId = 1\<rparr>, ''ab'')] \<and>
   d_promise (d_calls (Debounce_run Sync ''search'' search_unavailable
      [Call \<lparr>className = ''SearchService'', objectId = 1\<rparr> ''a'', Fire 0] debounce_init) ! 0) = None \<and>
   d_timer (d_calls (Debounce_run Sync ''search'' search_unavailable
      [Call \<lparr>className = ''SearchService'', objectId = 1\<rparr> ''a'', Fire 0] debounce_init) ! 0) = Fired \<and>
   d_applied (Debounce_run Sync ''search'' search_unavailable
      [Call \<lparr>className = ''SearchService'', objectId = 1\<rparr> ''a'', Fire 0] debounce_init) =
     [(\<lparr>className = ''SearchService'', objectId = 1\<rparr>, ''a'')]"
  by (simp add: Debounce_call_def Debounce_fire_def clearTimeout_def debounce_init_def debounce_key_def
        search_def search_unavailable_def Let_def)

text \<open>
  C7, amended. Every call returns a deferred value (a new, pending promise). When a call is
  followed by another call with the same key before its timer fired, its timer is cleared
  and its deferred value is never settled, whatever calls and timers follow: only the last
  caller can get a result. When the surviving timer fires, the target is applied once, to
  the last call's receiver and arguments. In \<open>DebounceAsync\<close>, and in \<open>DebounceSync\<close> when the
  target does not throw, the last caller's deferred value settles as the target's outcome;
  in \<open>DebounceSync\<close> when the target throws, the last caller's deferred value stays pending
  too, for ever.
\<close>

theorem debounce_only_last_caller_settles:
  "fst (Debounce_call m a x w) = length (d_calls w) \<and>
   d_promise (d_calls (snd (Debounce_call m a x w)) ! length (d_calls w)) = None \<and>
   (className b = className a \<longrightarrow>
      d_promise (d_calls (Debounce_run variant m target evs
          (snd (Debounce_call m b y (snd (Debounce_call m a x w))))) ! length (d_calls w)) = None \<and>
      d_timer (d_calls (Debounce_run variant m target evs
          (snd (Debounce_call m b y (snd (Debounce_call m a x w))))) ! length (d_calls w)) \<noteq> Armed \<and>
      d_applied (Debounce_fire variant target (Suc (length (d_calls w)))
          (snd (Debounce_call m b y (snd (Debounce_call m a x w))))) = d_applied w @ [(b, y)] \<and>
      (variant = Async \<or> (\<forall>e. target b y \<noteq> Throws e) \<longrightarrow>
         d_promise (d_calls (Debounce_fire variant target (Suc (length (d_calls w)))
             (snd (Debounce_call m b y (snd (Debounce_call m a x w))))) ! Suc (length (d_calls w))) =
           Some (settle (target b y))) \<and>
      (variant = Sync \<and> target b y = Throws e \<longrightarrow>
         d_promise (d_calls (Debounce_run variant m target evs
             (Debounce_fire variant target (Suc (length (d_calls w)))
               (snd (Debounce_call m b y (snd (Debounce_call m a x w)))))) ! Suc (length (d_calls w))) = None \<and>
         d_timer (d_calls (Debounce_run variant m target evs
             (Debounce_fire variant target (Suc (length (d_calls w)))
               (snd (Debounce_call m b y (snd (Debounce_call m a x w)))))) ! Suc (length (d_calls w))) \<noteq> Armed))"
proof (intro conjI impI)
  show "fst (Debounce_call m a x w) = length (d_calls w)"
    by (simp add: Debounce_call_fresh)
  show "d_promise (d_calls (snd (Debounce_call m a x w)) ! length (d_calls w)) = None"
    by (simp add: Debounce_call_fresh)
next
  assume same: "className b = className a"
  let ?w1 = "snd (Debounce_call m a x w)"
  let ?w2 = "snd (Debounce_call m b y ?w1)"
  let ?h = "length (d_calls w)"
  have key: "debounce_key b m = debounce_key a m"
    using same by (simp add: debounce_key_def)
  have w1: "timeoutMap ?w1 (debounce_key b m) = Some ?h" "?h < length (d_calls ?w1)"
    "d_timer (d_calls ?w1 ! ?h) = Armed" "d_promise (d_calls ?w1 ! ?h) = None"
    "length (d_calls ?w1) = Suc ?h" "d_applied ?w1 = d_applied w"
    using Debounce_call_fresh [of m a x w] by (simp_all add: key)
  have cleared: "d_timer (d_calls ?w2 ! ?h) = Cleared" "d_promise (d_calls ?w2 ! ?h) = None"
    using Debounce_call_same_key [OF w1(1) w1(2) w1(3), of y] w1(4) by simp_all
  have len2: "length (d_calls ?w2) = Suc (Suc ?h)"
    using Debounce_call_fresh [of m b y ?w1] w1(5) by simp
  have "abandoned ?h ?w2"
    using cleared len2 by (simp add: abandoned_def)
  then have ab: "abandoned ?h (Debounce_run variant m target evs ?w2)"
    by (rule Debounce_run_abandoned)
  show "d_promise (d_calls (Debounce_run variant m target evs ?w2) ! ?h) = None"
    using ab by (simp add: abandoned_def)
  show "d_timer (d_calls (Debounce_run variant m target evs ?w2) ! ?h) \<noteq> Armed"
    using ab by (simp add: abandoned_def)
  have last: "d_calls ?w2 ! Suc ?h = \<lparr>d_this = b, d_args = y, d_timer = Armed, d_promise = None\<rparr>"
    "d_applied ?w2 = d_applied w"
    using Debounce_call_fresh [of m b y ?w1] w1(5) w1(6) by simp_all
  show "d_applied (Debounce_fire variant target (Suc ?h) ?w2) = d_applied w @ [(b, y)]"
    using last len2 by (simp add: Debounce_fire_def Let_def)
  have arm: "Suc ?h < length (d_calls ?w2) \<and> d_timer (d_calls ?w2 ! Suc ?h) = Armed"
    using last len2 by simp
  {
    assume ok: "variant = Async \<or> (\<forall>e. target b y \<noteq> Throws e)"
    show "d_promise (d_calls (Debounce_fire variant target (Suc ?h) ?w2) ! Suc ?h) = Some (settle (target b y))"
    proof (cases "target b y")
      case (Throws e')
      with ok have "variant = Async" by auto
      then show ?thesis
        using arm last Throws by (simp add: Debounce_fire_def Let_def)
    qed (use arm last in \<open>simp_all add: Debounce_fire_def Let_def\<close>)
  }
  {
    assume thrown: "variant = Sync \<and> target b y = Throws e"
    have "abandoned (Suc ?h) (Debounce_fire variant target (Suc ?h) ?w2)"
      using arm last thrown by (simp add: abandoned_def Debounce_fire_def Let_def)
    then have lost: "abandoned (Suc ?h) (Debounce_run variant m target evs (Debounce_fire variant target (Suc ?h) ?w2))"
      by (rule Debounce_run_abandoned)
    show "d_promise (d_calls (Debounce_run variant m target evs
        (Debounce_fire variant target (Suc ?h) ?w2)) ! Suc ?h) = None"
      using lost by (simp add: abandoned_def)
    show "d_timer (d_calls (Debounce_run variant m target evs
        (Debounce_fire variant target (Suc ?h) ?w2)) ! Suc ?h) \<noteq> Armed"
      using lost by (simp add: abandoned_def)
  }
qed

theorem debounce_only_last_caller_settles_witness:
  "d_promise (d_calls (Debounce_run Sync ''search'' search [Fire 1, Fire 0]
      (snd (Debounce_call ''search'' \<lparr>className = ''SearchService'', objectId = 1\<rparr> ''ab''
        (snd (Debounce_call ''search'' \<lparr>className = ''SearchService'', objectId = 1\<rparr> ''a'' debounce_init))))) ! 0) = None \<and>
   d_promise (d_calls (Debounce_fire Sync search 1
      (snd (Debounce_call ''search'' \<lparr>className = ''SearchService'', objectId = 1\<rparr> ''ab''
        (snd (Debounce_call ''search'' \<lparr>className = ''SearchService'', objectId = 1\<rparr> ''a'' debounce_init))))) ! 1) =
     Some (Fulfilled ''Searching for: ab'') \<and>
   d_promise (d_calls (Debounce_run Sync ''search'' search_unavailable [Fire 1, Fire 0]
      (Debounce_fire Sync search_unavailable 1
        (snd (Debounce_call ''search'' \<lparr>className = ''SearchService'', objectId = 1\<rparr> ''ab''
          (snd (Debounce_call ''search'' \<lparr>className = ''SearchService'', objectId = 1\<rparr> ''a'' debounce_init)))))) ! 1) =
     None"
proof -
  have delivered: "d_promise (d_calls (Debounce_run Sync ''search'' search [Fire 1, Fire 0]
      (snd (Debounce_call ''search'' \<lparr>className = ''SearchService'', objectId = 1\<rparr> ''ab''
        (snd (Debounce_call ''search'' \<lparr>className = ''SearchService'', objectId = 1\<rparr> ''a'' debounce_init))))) ! 0) = None \<and>
     d_promise (d_calls (Debounce_fire Sync search 1
      (snd (Debounce_call ''search'' \<lparr>className = ''SearchService'', objectId = 1\<rparr> ''ab''
        (snd (Debounce_call ''search'' \<lparr>className = ''SearchService'', objectId = 1\<rparr> ''a'' debounce_init))))) ! 1) =
     Some (Fulfilled ''Searching for: ab'')"
    using debounce_only_last_caller_settles
      [where m = "''search''" and a = "\<lparr>className = ''SearchService'', objectId = 1\<rparr>" and x = "''a''"
         and w = "debounce_init :: (string, string) debounce_world"
         and b = "\<lparr>className = ''SearchService'', objectId = 1\<rparr>" and variant = Sync and target = search
         and evs = "[Fire 1, Fire 0]" and y = "''ab''"]
    by (simp add: debounce_init_def search_def)
  have thrown: "d_promise (d_calls (Debounce_run Sync ''search'' search_unavailable [Fire 1, Fire 0]
      (Debounce_fire Sync search_unavailable 1
        (snd (Debounce_call ''search'' \<lparr>className = ''SearchService'', objectId = 1\<rparr> ''ab''
          (snd (Debounce_call ''search'' \<lparr>className = ''SearchService'', objectId = 1\<rparr> ''a'' debounce_init)))))) ! 1) =
     None"
    using debounce_only_last_caller_settles
      [where m = "''search''" and a = "\<lparr>className = ''SearchService'', objectId = 1\<rparr>" and x = "''a''"
         and w = "debounce_init :: (string, string) debounce_world"
         and b = "\<lparr>className = ''SearchService'', objectId = 1\<rparr>" and variant = Sync
         and target = search_unavailable and evs = "[Fire 1, Fire 0]" and y = "''ab''"
         and e = "Error ''Search unavailable''"]
    by (simp add: debounce_init_def search_unavailable_def)
  from delivered thrown show ?thesis by blast
qed

text \<open>
  C8, as stated, keys the debounce state by owner instance, so that a call on one object
  never cancels the pending execution of another object of the same class. The key is built
  from the class name: after \<open>search('a')\<close> on object 1 and \<open>search('b')\<close> on object 2 of the same
  class, the timer of object 1 is cleared, and when the timers' deadlines pass the target has
  run once only, on object 2.
\<close>

theorem debounce_instances_share_key_counterexample:
  "d_timer (d_calls (Debounce_run Sync ''search'' search
      [Call \<lparr>className = ''SearchService'', objectId = 1\<rparr> ''a'',
       Call \<lparr>className = ''SearchService'', objectId = 2\<rparr> ''b''] debounce_init) ! 0) = Cleared \<and>
   d_applied (Debounce_run Sync ''search'' search
      [Call \<lparr>className = ''SearchService'', objectId = 1\<rparr> ''a'',
       Call \<lparr>className = ''SearchService'', objectId = 2\<rparr> ''b'', Fire 0, Fire 1] debounce_init) =
     [(\<lparr>className = ''SearchService'', objectId = 2\<rparr>, ''b'')]"
  by (simp add: Debounce_call_def Debounce_fire_def clearTimeout_def debounce_init_def debounce_key_def
        search_def Let_def)

text \<open>
  C8, amended. Debounce state is keyed per (class name of the owner, operation name): two
  receivers have the same key exactly when their class names are equal. In any state
  reached from the initial one, a call cancels the pending timer set by the preceding call
  whenever the two receivers have the same class name, also when they are different
  objects; a call on a receiver of another class leaves that timer armed.
\<close>

theorem debounce_keyed_by_class_name:
  "(debounce_key b m = debounce_key a m) = (className b = className a) \<and>
   (className b = className a \<longrightarrow>
      d_timer (d_calls (snd (Debounce_call m b y (snd (Debounce_call m a x
          (Debounce_run variant m target evs debounce_init))))) !
        length (d_calls (Debounce_run variant m target evs debounce_init))) = Cleared) \<and>
   (className b \<noteq> className a \<longrightarrow>
      d_calls (snd (Debounce_call m b y (snd (Debounce_call m a x
          (Debounce_run variant m target evs debounce_init))))) !
        length (d_calls (Debounce_run variant m target evs debounce_init)) =
      \<lparr>d_this = a, d_args = x, d_timer = Armed, d_promise = None\<rparr>)"
proof (intro conjI impI)
  show keys: "(debounce_key b m = debounce_key a m) = (className b = className a)"
    by (simp add: debounce_key_def)
  let ?w = "Debounce_run variant m target evs debounce_init"
  let ?w1 = "snd (Debounce_call m a x ?w)"
  let ?h = "length (d_calls ?w)"
  have known: "handles_known ?w"
    using handles_known_init by (rule Debounce_run_handles_known)
  have fresh: "timeoutMap ?w1 (debounce_key a m) = Some ?h" "?h < length (d_calls ?w1)"
    "d_calls ?w1 ! ?h = \<lparr>d_this = a, d_args = x, d_timer = Armed, d_promise = None\<rparr>"
    using Debounce_call_fresh [of m a x ?w] by simp_all
  {
    assume "className b = className a"
    then have "timeoutMap ?w1 (debounce_key b m) = Some ?h"
      using fresh(1) keys by simp
    then show "d_timer (d_calls (snd (Debounce_call m b y ?w1)) ! ?h) = Cleared"
      using Debounce_call_same_key [of ?w1 b m ?h y] fresh by simp
  }
  {
    assume "className b \<noteq> className a"
    then have other: "debounce_key b m \<noteq> debounce_key a m"
      using keys by simp
    then have "timeoutMap ?w1 (debounce_key b m) = timeoutMap ?w (debounce_key b m)"
      using Debounce_call_fresh [of m a x ?w] by simp
    moreover have "timeoutMap ?w (debounce_key b m) \<noteq> Some ?h"
      using known by (auto simp add: handles_known_def)
    ultimately have "timeoutMap ?w1 (debounce_key b m) \<noteq> Some ?h" by simp
    then have "d_calls (snd (Debounce_call m b y ?w1)) ! ?h = d_calls ?w1 ! ?h"
      using fresh(2) by (rule Debounce_call_other_key)
    then show "d_calls (snd (Debounce_call m b y ?w1)) ! ?h =
        \<lparr>d_this = a, d_args = x, d_timer = Armed, d_promise = None\<rparr>"
      using fresh(3) by simp
  }
qed

theorem debounce_keyed_by_class_name_witness:
  "d_timer (d_calls (snd (Debounce_call ''search'' \<lparr>className = ''SearchService'', objectId = 2\<rparr> ''b''
      (snd (Debounce_call ''search'' \<lparr>className = ''SearchService'', objectId = 1\<rparr> ''a''
        (Debounce_run Sync ''search'' search [] debounce_init))))) ! 0) = Cleared \<and>
   d_timer (d_calls (snd (Debounce_call ''search'' \<lparr>className = ''IndexService'', objectId = 2\<rparr> ''b''
      (snd (Debounce_call ''search'' \<lparr>className = ''SearchService'', objectId = 1\<rparr> ''a''
        (Debounce_run Sync ''search'' search [] debounce_init))))) ! 0) = Armed"
proof -
  have same: "d_timer (d_calls (snd (Debounce_call ''search'' \<lparr>className = ''SearchService'', objectId = 2\<rparr> ''b''
      (snd (Debounce_call ''search'' \<lparr>className = ''SearchService'', objectId = 1\<rparr> ''a''
        (Debounce_run Sync ''search'' search [] debounce_init))))) ! 0) = Cleared"
    using debounce_keyed_by_class_name
      [of "\<lparr>className = ''SearchService'', objectId = 2\<rparr>" "''search''"
          "\<lparr>className = ''SearchService'', objectId = 1\<rparr>" "''b''" "''a''" Sync search "[]"]
    by (simp add: debounce_init_def)
  have other: "d_timer (d_calls (snd (Debounce_call ''search'' \<lparr>className = ''IndexService'', objectId = 2\<rparr> ''b''
      (snd (Debounce_call ''search'' \<lparr>className = ''SearchService'', objectId = 1\<rparr> ''a''
        (Debounce_run Sync ''search'' search [] debounce_init))))) ! 0) = Armed"
    using debounce_keyed_by_class_name
      [of "\<lparr>className = ''IndexService'', objectId = 2\<rparr>" "''search''"
          "\<lparr>className = ''SearchService'', objectId = 1\<rparr>" "''b''" "''a''" Sync search "[]"]
    by (simp add: debounce_init_def)
  from same other show ?thesis by blast
qed

section \<open>Properties of the scheduling cleanup\<close>

lemma cleanup_effects:
  "fst (cleanup inst) =
     map JobStop (handles (CRON_JOBS inst)) @ map ClearInterval (handles (INTERVALS inst)) @
     map ClearTimeout (handles (TIMEOUTS inst))"
  by (simp add: cleanup_def handles_def split_beta comp_def split: option.split)

lemma cleanup_instance:
  "snd (cleanup inst) =
     inst\<lparr>CRON_JOBS := cleared (CRON_JOBS inst), INTERVALS := cleared (INTERVALS inst),
          TIMEOUTS := cleared (TIMEOUTS inst)\<rparr>"
  by (simp add: cleanup_def cleared_def split: option.split)

lemma handles_cleared [simp]: "handles (cleared m) = []"
  by (simp add: handles_def cleared_def split: option.split)

lemma cleared_cleared [simp]: "cleared (cleared m) = cleared m"
  by (simp add: cleared_def split: option.split)

lemma map_set_holds: "(k, v) \<in> set (map_set k v xs)"
proof (cases "k \<in> fst ` set xs")
  case True
  then obtain b where "(k, b) \<in> set xs" by auto
  then have "(\<lambda>(k', v'). if k' = k then (k', v) else (k', v')) (k, b) \<in>
      (\<lambda>(k', v'). if k' = k then (k', v) else (k', v')) ` set xs"
    by (rule imageI)
  then show ?thesis using True by (simp add: map_set_def)
next
  case False
  then show ?thesis by (simp add: map_set_def)
qed

lemma handles_map_set: "v \<in> set (handles (Some (map_set k v xs)))"
proof -
  have "snd (k, v) \<in> snd ` set (map_set k v xs)"
    using map_set_holds by (rule imageI)
  then show ?thesis by (simp add: handles_def)
qed

text \<open>
  What the cleanup does with the handles the maps hold: one call makes exactly one stop or
  clear call for each of them and leaves every map present empty; the handle an initializer
  has just stored is among them; a second call makes no call at all and changes nothing, so
  cleanup after cleanup equals cleanup; on an instance where nothing was ever registered the
  cleanup makes no call and changes nothing.
\<close>

lemma cleanup_held_handles:
  "fst (cleanup inst) =
     map JobStop (handles (CRON_JOBS inst)) @ map ClearInterval (handles (INTERVALS inst)) @
     map ClearTimeout (handles (TIMEOUTS inst)) \<and>
   handles (CRON_JOBS (snd (cleanup inst))) = [] \<and>
   handles (INTERVALS (snd (cleanup inst))) = [] \<and>
   handles (TIMEOUTS (snd (cleanup inst))) = [] \<and>
   JobStop job \<in> set (fst (cleanup (Schedule_initializer name job inst))) \<and>
   ClearInterval intervalId \<in> set (fst (cleanup (Interval_initializer name intervalId inst))) \<and>
   ClearTimeout timeoutId \<in> set (fst (cleanup (Timeout_initializer name timeoutId inst))) \<and>
   cleanup (snd (cleanup inst)) = ([], snd (cleanup inst)) \<and>
   snd (cleanup (snd (cleanup inst))) = snd (cleanup inst) \<and>
   cleanup \<lparr>CRON_JOBS = None, INTERVALS = None, TIMEOUTS = None\<rparr> =
     ([], \<lparr>CRON_JOBS = None, INTERVALS = None, TIMEOUTS = None\<rparr>)"
proof -
  have again: "cleanup (snd (cleanup inst)) = ([], snd (cleanup inst))"
    by (rule prod_eqI) (simp_all add: cleanup_effects cleanup_instance)
  have job: "JobStop job \<in> set (fst (cleanup (Schedule_initializer name job inst)))"
    by (simp add: cleanup_effects Schedule_initializer_def handles_map_set)
  have interval: "ClearInterval intervalId \<in> set (fst (cleanup (Interval_initializer name intervalId inst)))"
    by (simp add: cleanup_effects Interval_initializer_def handles_map_set)
  have timeout: "ClearTimeout timeoutId \<in> set (fst (cleanup (Timeout_initializer name timeoutId inst)))"
    by (simp add: cleanup_effects Timeout_initializer_def handles_map_set)
  have never: "cleanup \<lparr>CRON_JOBS = None, INTERVALS = None, TIMEOUTS = None\<rparr> =
     ([], \<lparr>CRON_JOBS = None, INTERVALS = None, TIMEOUTS = None\<rparr>)"
    by (simp add: cleanup_def)
  show ?thesis
    using again job interval timeout never
    by (simp add: cleanup_effects cleanup_instance)
qed

text \<open>
  C9. The cleanup is to stop every registered interval handle (and cron job and timeout
  handle) exactly once. Evaluated on an instance whose method \<open>tick\<close> was registered twice by
  the \<open>Interval\<close> initializer, with handle 1 and then handle 2: the second registration
  replaces the first in the map, so the map holds handle 2 only, the cleanup clears handle
  2 only, and a second cleanup clears nothing. Handle 1 was registered and is never cleared.
\<close>

theorem cleanup_misses_replaced_handle:
  "Interval_initializer ''tick'' 2
      (Interval_initializer ''tick'' 1 \<lparr>CRON_JOBS = None, INTERVALS = None, TIMEOUTS = None\<rparr>) =
     \<lparr>CRON_JOBS = None, INTERVALS = Some [(''tick'', 2)], TIMEOUTS = None\<rparr> \<and>
   cleanup (Interval_initializer ''tick'' 2
      (Interval_initializer ''tick'' 1 \<lparr>CRON_JOBS = None, INTERVALS = None, TIMEOUTS = None\<rparr>)) =
     ([ClearInterval 2], \<lparr>CRON_JOBS = None, INTERVALS = Some [], TIMEOUTS = None\<rparr>) \<and>
   cleanup \<lparr>CRON_JOBS = None, INTERVALS = Some [], TIMEOUTS = None\<rparr> =
     ([], \<lparr>CRON_JOBS = None, INTERVALS = Some [], TIMEOUTS = None\<rparr>) \<and>
   ClearInterval 1 \<notin> set (fst (cleanup (Interval_initializer ''tick'' 2
      (Interval_initializer ''tick'' 1 \<lparr>CRON_JOBS = None, INTERVALS = None, TIMEOUTS = None\<rparr>))))"
  by (simp add: Interval_initializer_def map_set_def cleanup_def)

end
